theory Spec2Isabelle
  imports Main
begin

section \<open>A recursive DNS resolver (resolve.py)\<close>

text \<open>
  The development embeds \<^verbatim>\<open>src/resolve.py\<close>: the glue extractor \<^verbatim>\<open>dns_caching\<close>,
  the engine \<^verbatim>\<open>_recurlookup\<close>, the router \<^verbatim>\<open>lookup\<close>, the aggregator
  \<^verbatim>\<open>collect_results\<close> and the driver loop of \<^verbatim>\<open>main\<close>.

  The dnspython library is not part of the repository. What the code reads from it is
  data here: a record of the fields the code touches, with the textual rendering
  \<^verbatim>\<open>str(...)\<close> of a record or a record set as a field of its own. The network
  \<^verbatim>\<open>dns.query.udp\<close> is a parameter of the engine.
\<close>

subsection \<open>Library data\<close>

text \<open>
  One resource record (an rdata of dnspython): its type code \<^verbatim>\<open>rdtype\<close>, its
  rendering \<^verbatim>\<open>str(answer)\<close>, and the two attributes read from MX records.
\<close>

record rdata =
  rdtype :: nat
  to_text :: string
  preference :: nat
  exchange :: string

text \<open>
  A record set: the owner name \<^verbatim>\<open>answers.name\<close> as text, the rendering
  \<^verbatim>\<open>str(answers)\<close> of the whole set, and the records that iterating over it yields.
\<close>

record rrset =
  rname :: string
  rtext :: string
  rdatas :: "rdata list"

record message =
  answer :: "rrset list"
  authority :: "rrset list"
  additional :: "rrset list"

datatype py_error = IndexError

datatype 'a result = Error py_error | Value 'a

subsection \<open>Python's string and list primitives\<close>

text \<open>
  \<^verbatim>\<open>s.split(".")\<close>: every separator cuts, empty pieces are kept, and the result always
  has at least one piece.
\<close>

fun split_on :: "char \<Rightarrow> string \<Rightarrow> string \<Rightarrow> string list" where
  "split_on sep w [] = [w]"
| "split_on sep w (c # cs) =
     (if c = sep then w # split_on sep [] cs else split_on sep (w @ [c]) cs)"

definition split_dot :: "string \<Rightarrow> string list" where
  "split_dot s = split_on (CHR ''.'') [] s"

text \<open>
  \<^verbatim>\<open>s.split()\<close>: runs of white space separate, and no empty piece is produced. The
  white space of an ASCII text is the blank, the four controls 0x09 to 0x0D and the
  separators 0x1C to 0x1F.
\<close>

definition is_space :: "char \<Rightarrow> bool" where
  "is_space c = (c \<in> set [CHR 0x20, CHR 0x09, CHR 0x0A, CHR 0x0B, CHR 0x0C, CHR 0x0D,
                           CHR 0x1C, CHR 0x1D, CHR 0x1E, CHR 0x1F])"

fun split_ws :: "string \<Rightarrow> string \<Rightarrow> string list" where
  "split_ws w [] = (if w = [] then [] else [w])"
| "split_ws w (c # cs) =
     (if is_space c then (if w = [] then split_ws [] cs else w # split_ws [] cs)
      else split_ws (w @ [c]) cs)"

definition split_space :: "string \<Rightarrow> string list" where
  "split_space s = split_ws [] s"

text \<open>\<^verbatim>\<open>v[-2]\<close>: the element before the last, IndexError on a list shorter than two.\<close>

definition index_m2 :: "'a list \<Rightarrow> 'a result" where
  "index_m2 v = (if length v < 2 then Error IndexError else Value (v ! (length v - 2)))"

subsection \<open>Program state\<close>

text \<open>
  The two module-level dictionaries are the state. \<open>trace\<close> is an observation log the
  source does not have: it records every transport call and every call of the engine
  on \<^verbatim>\<open>ROOT_SERVERS\<close> made by the engine itself, so that claims about the work done
  can be stated. Nothing reads it but the clock of the network (its length), which lets
  the network answer the same question differently at different times.
\<close>

datatype event = Sent string nat string | Restart string nat

datatype entry =
  CnameEntry rdata string
| AddressEntry string string
| MxEntry string nat string

text \<open>
  The dictionary \<^verbatim>\<open>full_response\<close> always has the four keys CNAME, A, AAAA and MX; the
  fields carry the names of the lists stored under them.
\<close>

record full_response =
  cnames :: "entry list"
  arecords :: "entry list"
  aaaarecords :: "entry list"
  mxrecords :: "entry list"

record state =
  dns_cache :: "string \<rightharpoonup> string list"
  domain_cache :: "string \<rightharpoonup> full_response"
  trace :: "event list"

definition log :: "event \<Rightarrow> state \<Rightarrow> state" where
  "log e st = st\<lparr>trace := trace st @ [e]\<rparr>"

definition ROOT_SERVERS :: "string list" where
  "ROOT_SERVERS =
     [''198.41.0.4'', ''192.228.79.201'', ''192.33.4.12'', ''199.7.91.13'',
      ''192.203.230.10'', ''192.5.5.241'', ''192.112.36.4'', ''198.97.190.53'',
      ''192.36.148.17'', ''192.58.128.30'', ''193.0.14.129'', ''199.7.83.42'',
      ''202.12.27.33'']"

subsection \<open>The glue extractor: dns_caching\<close>

text \<open>
  Lines 164 to 168: the address is stored under the key when the key is new, appended
  when the key is known and the address is not yet in its list, and dropped otherwise.
\<close>

definition cache_merge ::
  "string \<Rightarrow> string \<Rightarrow> (string \<rightharpoonup> string list) \<Rightarrow> (string \<rightharpoonup> string list)" where
  "cache_merge k addr c =
     (case c k of
        None \<Rightarrow> c(k \<mapsto> [addr])
      | Some old \<Rightarrow> if addr \<in> set old then c else c(k \<mapsto> old @ [addr]))"

text \<open>
  Line 165 stores the very list that the function returns. No list is updated in place
  anywhere (line 168 builds a new list, line 142 extends a fresh local one), so the
  sharing cannot be observed, and lists are values here.
\<close>

text \<open>
  The loop over the tokens. \<open>type_is\<close> is the whole token list, \<open>address\<close> the local
  variable returned at the end. \<^verbatim>\<open>type_is[0]\<close> and \<^verbatim>\<open>type_is[-1]\<close> raise on an empty list,
  \<^verbatim>\<open>v[-2]\<close> raises when the first token has no dot.
\<close>

fun caching_loop ::
  "string list \<Rightarrow> string list \<Rightarrow> string list \<Rightarrow> (string \<rightharpoonup> string list)
     \<Rightarrow> string list result \<times> (string \<rightharpoonup> string list)" where
  "caching_loop type_is [] address c = (Value address, c)"
| "caching_loop type_is (a # rest) address c =
     (if a = ''A'' then
        (case type_is of
           [] \<Rightarrow> (Error IndexError, c)
         | t0 # _ \<Rightarrow>
            (case index_m2 (split_dot t0) of
               Error e \<Rightarrow> (Error e, c)
             | Value k \<Rightarrow>
                 caching_loop type_is rest [last type_is] (cache_merge k (last type_is) c)))
      else caching_loop type_is rest address c)"

definition dns_caching :: "string \<Rightarrow> state \<Rightarrow> string list result \<times> state" where
  "dns_caching string st =
     (case caching_loop (split_space string) (split_space string) [] (dns_cache st) of
        (r, c) \<Rightarrow> (r, st\<lparr>dns_cache := c\<rparr>))"

subsection \<open>The engine: _recurlookup\<close>

text \<open>
  The network: the clock, the name and type of the query and the server give a response,
  or nothing when the call raises or the response is empty. Building the query (line 107)
  is the library's work and is taken to succeed; the query carries the name and the type
  the engine was called with, for every candidate.
\<close>

type_synonym transport = "nat \<Rightarrow> string \<Rightarrow> nat \<Rightarrow> string \<Rightarrow> message option"

text \<open>
  A call of the engine gives the value returned (\<open>None\<close> is Python's \<^verbatim>\<open>None\<close>) or the
  exception raised, with the state it leaves; the outer \<open>option\<close> is \<open>None\<close> when the
  recursion does not come back within the depth allowed.
\<close>

type_synonym engine =
  "string \<Rightarrow> nat \<Rightarrow> string list \<Rightarrow> state \<Rightarrow> (message option result \<times> state) option"

text \<open>
  What a loop does to the function around it: it raises, it returns from the function,
  or it ends and hands on the local variables it assigned.
\<close>

datatype 'l ctl = Raise py_error | Return "message option" | Next 'l

text \<open>Lines 141 and 142: the glue addresses of the additional section, accumulated.\<close>

fun glue_loop :: "rrset list \<Rightarrow> string list \<Rightarrow> state \<Rightarrow> string list result \<times> state" where
  "glue_loop [] list_of_addresses st = (Value list_of_addresses, st)"
| "glue_loop (add # rest) list_of_addresses st =
     (case dns_caching (rtext add) st of
        (Error e, st') \<Rightarrow> (Error e, st')
      | (Value addrs, st') \<Rightarrow> glue_loop rest (list_of_addresses @ addrs) st')"

text \<open>Lines 124 to 127: the host names of one authority record set, type 6 skipped.\<close>

fun collect_ns :: "rdata list \<Rightarrow> string list \<Rightarrow> string list" where
  "collect_ns [] ns_records = ns_records"
| "collect_ns (auth # rest) ns_records =
     (if rdtype auth = 6 then collect_ns rest ns_records
      else collect_ns rest (ns_records @ [butlast (to_text auth)]))"

text \<open>Lines 133 to 138: the answers of a resolved name server, each tried as a server set.\<close>

fun ns_answer_loop ::
  "engine \<Rightarrow> string \<Rightarrow> nat \<Rightarrow> rrset list \<Rightarrow> state \<Rightarrow> (unit ctl \<times> state) option" where
  "ns_answer_loop rec target_name qtype [] st = Some (Next (), st)"
| "ns_answer_loop rec target_name qtype (ans # rest) st =
     (case dns_caching (rtext ans) st of
        (Error e, st1) \<Rightarrow> Some (Raise e, st1)
      | (Value addr_of_ns_recrds, st1) \<Rightarrow>
          (case rec target_name qtype addr_of_ns_recrds st1 of
             None \<Rightarrow> None
           | Some (Error e, st2) \<Rightarrow> Some (Raise e, st2)
           | Some (Value None, st2) \<Rightarrow> ns_answer_loop rec target_name qtype rest st2
           | Some (Value (Some response_for_ns), st2) \<Rightarrow>
               Some (Return (Some response_for_ns), st2)))"

text \<open>Lines 129 to 138: every host name collected so far is resolved from the root.\<close>

fun host_loop ::
  "engine \<Rightarrow> string \<Rightarrow> nat \<Rightarrow> string list \<Rightarrow> state \<Rightarrow> (unit ctl \<times> state) option" where
  "host_loop rec target_name qtype [] st = Some (Next (), st)"
| "host_loop rec target_name qtype (host_name # rest) st =
     (case rec host_name 1 ROOT_SERVERS (log (Restart host_name 1) st) of
        None \<Rightarrow> None
      | Some (Error e, st1) \<Rightarrow> Some (Raise e, st1)
      | Some (Value None, st1) \<Rightarrow> host_loop rec target_name qtype rest st1
      | Some (Value (Some authority_resp), st1) \<Rightarrow>
          (case ns_answer_loop rec target_name qtype (answer authority_resp) st1 of
             None \<Rightarrow> None
           | Some (Next u, st2) \<Rightarrow> host_loop rec target_name qtype rest st2
           | Some (Raise e, st2) \<Rightarrow> Some (Raise e, st2)
           | Some (Return r, st2) \<Rightarrow> Some (Return r, st2)))"

text \<open>
  Lines 123 to 138: \<open>ns_records\<close> is not reset between the record sets of the authority
  section, and the loop over it runs once per record set.
\<close>

fun authority_loop ::
  "engine \<Rightarrow> string \<Rightarrow> nat \<Rightarrow> rrset list \<Rightarrow> string list \<Rightarrow> state
     \<Rightarrow> (unit ctl \<times> state) option" where
  "authority_loop rec target_name qtype [] ns_records st = Some (Next (), st)"
| "authority_loop rec target_name qtype (grp # rest) ns_records st =
     (case host_loop rec target_name qtype (collect_ns (rdatas grp) ns_records) st of
        None \<Rightarrow> None
      | Some (Next u, st1) \<Rightarrow>
          authority_loop rec target_name qtype rest (collect_ns (rdatas grp) ns_records) st1
      | Some (Raise e, st1) \<Rightarrow> Some (Raise e, st1)
      | Some (Return r, st1) \<Rightarrow> Some (Return r, st1))"

text \<open>
  Lines 147 to 154: the records of one answer record set. Each record overwrites the
  local \<open>target_name\<close> before its type is looked at.
\<close>

fun record_loop ::
  "engine \<Rightarrow> nat \<Rightarrow> message \<Rightarrow> rdata list \<Rightarrow> string \<Rightarrow> state
     \<Rightarrow> (string ctl \<times> state) option" where
  "record_loop rec qtype response [] target_name st = Some (Next target_name, st)"
| "record_loop rec qtype response (ans # rest) target_name st =
     (if rdtype ans = qtype then Some (Return (Some response), st)
      else if rdtype ans = 5 then
        (case rec (butlast (to_text ans)) qtype ROOT_SERVERS
                (log (Restart (butlast (to_text ans)) qtype) st) of
           None \<Rightarrow> None
         | Some (Error e, st1) \<Rightarrow> Some (Raise e, st1)
         | Some (Value r, st1) \<Rightarrow> Some (Return r, st1))
      else record_loop rec qtype response rest (butlast (to_text ans)) st)"

text \<open>Lines 146 to 154: the record sets of the answer section.\<close>

fun answer_loop ::
  "engine \<Rightarrow> nat \<Rightarrow> message \<Rightarrow> rrset list \<Rightarrow> string \<Rightarrow> state
     \<Rightarrow> (string ctl \<times> state) option" where
  "answer_loop rec qtype response [] target_name st = Some (Next target_name, st)"
| "answer_loop rec qtype response (answers # rest) target_name st =
     (case record_loop rec qtype response (rdatas answers) target_name st of
        None \<Rightarrow> None
      | Some (Next target_name', st1) \<Rightarrow> answer_loop rec qtype response rest target_name' st1
      | Some (Raise e, st1) \<Rightarrow> Some (Raise e, st1)
      | Some (Return r, st1) \<Rightarrow> Some (Return r, st1))"

text \<open>
  Lines 108 to 154: the loop over the candidate servers. The query is built once, from
  \<open>qname\<close>, before the loop; \<open>target_name\<close> is the local variable, which the answer
  walk of an earlier candidate may have overwritten.
\<close>

fun server_loop ::
  "transport \<Rightarrow> engine \<Rightarrow> string \<Rightarrow> nat \<Rightarrow> string list \<Rightarrow> string \<Rightarrow> state
     \<Rightarrow> (message option result \<times> state) option" where
  "server_loop udp rec qname qtype [] target_name st = Some (Value None, st)"
| "server_loop udp rec qname qtype (server # rest) target_name st =
     (case udp (length (trace st)) qname qtype server of
        None \<Rightarrow> server_loop udp rec qname qtype rest target_name (log (Sent qname qtype server) st)
      | Some response \<Rightarrow>
          if answer response = [] then
            if additional response = [] then
              (case authority_loop rec target_name qtype (authority response) []
                      (log (Sent qname qtype server) st) of
                 None \<Rightarrow> None
               | Some (Next u, st2) \<Rightarrow> server_loop udp rec qname qtype rest target_name st2
               | Some (Raise e, st2) \<Rightarrow> Some (Error e, st2)
               | Some (Return r, st2) \<Rightarrow> Some (Value r, st2))
            else
              (case glue_loop (additional response) [] (log (Sent qname qtype server) st) of
                 (Error e, st2) \<Rightarrow> Some (Error e, st2)
               | (Value list_of_addresses, st2) \<Rightarrow>
                   rec target_name qtype list_of_addresses st2)
          else
            (case answer_loop rec qtype response (answer response) target_name
                    (log (Sent qname qtype server) st) of
               None \<Rightarrow> None
             | Some (Next target_name', st2) \<Rightarrow>
                 server_loop udp rec qname qtype rest target_name' st2
             | Some (Raise e, st2) \<Rightarrow> Some (Error e, st2)
             | Some (Return r, st2) \<Rightarrow> Some (Value r, st2)))"

text \<open>Lines 105 to 155, with the recursive calls handed in as \<open>rec\<close>.\<close>

definition recurlookup_body :: "transport \<Rightarrow> engine \<Rightarrow> engine" where
  "recurlookup_body udp rec target_name qtype servers_list st =
     (if servers_list = [] then Some (Value None, st)
      else server_loop udp rec target_name qtype servers_list target_name st)"

text \<open>
  The source bounds the recursion nowhere. The first argument is the number of nested
  calls still allowed; a call that needs more does not return.
\<close>

definition no_return :: engine where
  "no_return target_name qtype servers_list st = None"

primrec recurlookup :: "nat \<Rightarrow> transport \<Rightarrow> engine" where
  "recurlookup 0 udp = recurlookup_body udp no_return"
| "recurlookup (Suc n) udp = recurlookup_body udp (recurlookup n udp)"

subsection \<open>The router: lookup\<close>

text \<open>
  \<open>target_name\<close> is the text \<^verbatim>\<open>str(target_name)\<close> of the name asked for. The key is
  \<^verbatim>\<open>first_req[-2]\<close>, which raises IndexError on a name without a dot.
\<close>

definition lookup ::
  "nat \<Rightarrow> transport \<Rightarrow> string \<Rightarrow> nat \<Rightarrow> state \<Rightarrow> (message option result \<times> state) option" where
  "lookup fuel udp target_name qtype st =
     (case index_m2 (split_dot target_name) of
        Error e \<Rightarrow> Some (Error e, st)
      | Value tld_domain \<Rightarrow>
          (case dns_cache st tld_domain of
             Some cached_address \<Rightarrow> recurlookup fuel udp target_name qtype cached_address st
           | None \<Rightarrow> recurlookup fuel udp target_name qtype ROOT_SERVERS st))"

subsection \<open>The aggregator: collect_results\<close>

text \<open>Lines 56 to 61: every record of the CNAME response, and the name it leaves.\<close>

fun cname_records :: "string \<Rightarrow> rdata list \<Rightarrow> entry list \<times> string \<Rightarrow> entry list \<times> string" where
  "cname_records name [] acc = acc"
| "cname_records name (ans # rest) acc =
     cname_records name rest (fst acc @ [CnameEntry ans name], butlast (to_text ans))"

fun cname_answers :: "string \<Rightarrow> rrset list \<Rightarrow> entry list \<times> string \<Rightarrow> entry list \<times> string" where
  "cname_answers name [] acc = acc"
| "cname_answers name (answers # rest) acc =
     cname_answers name rest (cname_records name (rdatas answers) acc)"

text \<open>
  Lines 67 to 71 and 77 to 82: the address records of type \<open>code\<close> (1 for A, 28 for
  AAAA), under the owner name of their record set.
\<close>

fun address_records :: "nat \<Rightarrow> string \<Rightarrow> rdata list \<Rightarrow> entry list \<Rightarrow> entry list" where
  "address_records code a_name [] acc = acc"
| "address_records code a_name (ans # rest) acc =
     address_records code a_name rest
       (if rdtype ans = code then acc @ [AddressEntry a_name (to_text ans)] else acc)"

fun address_answers :: "nat \<Rightarrow> rrset list \<Rightarrow> entry list \<Rightarrow> entry list" where
  "address_answers code [] acc = acc"
| "address_answers code (answers # rest) acc =
     address_answers code rest (address_records code (rname answers) (rdatas answers) acc)"

text \<open>Lines 88 to 94: the MX records.\<close>

fun mx_records :: "string \<Rightarrow> rdata list \<Rightarrow> entry list \<Rightarrow> entry list" where
  "mx_records mx_name [] acc = acc"
| "mx_records mx_name (ans # rest) acc =
     mx_records mx_name rest
       (if rdtype ans = 15 then acc @ [MxEntry mx_name (preference ans) (exchange ans)]
        else acc)"

fun mx_answers :: "rrset list \<Rightarrow> entry list \<Rightarrow> entry list" where
  "mx_answers [] acc = acc"
| "mx_answers (answers # rest) acc =
     mx_answers rest (mx_records (rname answers) (rdatas answers) acc)"

text \<open>A call that raises or does not return ends the caller; otherwise the caller goes on.\<close>

definition bind ::
  "('a result \<times> state) option \<Rightarrow> ('a \<Rightarrow> state \<Rightarrow> ('b result \<times> state) option)
     \<Rightarrow> ('b result \<times> state) option" where
  "bind m f =
     (case m of
        None \<Rightarrow> None
      | Some (Error e, st) \<Rightarrow> Some (Error e, st)
      | Some (Value v, st) \<Rightarrow> f v st)"

text \<open>
  \<open>from_text\<close> stands for \<^verbatim>\<open>str(dns.name.from_text(name))\<close>, the library's absolute form
  of the name typed by the user.
\<close>

definition collect_results ::
  "nat \<Rightarrow> transport \<Rightarrow> (string \<Rightarrow> string) \<Rightarrow> string \<Rightarrow> state
     \<Rightarrow> (full_response result \<times> state) option" where
  "collect_results fuel udp from_text name st =
     bind (lookup fuel udp (from_text name) 5 st) (\<lambda>response1 st1.
       let start = ([], from_text name);
           found = (case response1 of None \<Rightarrow> start
                    | Some r \<Rightarrow> cname_answers name (answer r) start);
           target_name = snd found
       in
       bind (lookup fuel udp target_name 1 st1) (\<lambda>response2 st2.
       bind (lookup fuel udp target_name 28 st2) (\<lambda>response3 st3.
       bind (lookup fuel udp target_name 15 st3) (\<lambda>response4 st4.
         Some (Value \<lparr>cnames = fst found,
                 arecords = (case response2 of None \<Rightarrow> []
                             | Some r \<Rightarrow> address_answers 1 (answer r) []),
                 aaaarecords = (case response3 of None \<Rightarrow> []
                                | Some r \<Rightarrow> address_answers 28 (answer r) []),
                 mxrecords = (case response4 of None \<Rightarrow> []
                              | Some r \<Rightarrow> mx_answers (answer r) [])\<rparr>, st4)))))"

subsection \<open>The driver: main\<close>

text \<open>Lines 206 to 209: the names given, each kept at its first occurrence.\<close>

fun dedup :: "string list \<Rightarrow> string list \<Rightarrow> string list" where
  "dedup [] new_list = new_list"
| "dedup (i # rest) new_list =
     dedup rest (if i \<in> set new_list then new_list else new_list @ [i])"

text \<open>
  Lines 211 to 215, for one name: the result handed to \<^verbatim>\<open>print_results\<close> and the state
  left behind.
\<close>

definition resolve_domain ::
  "nat \<Rightarrow> transport \<Rightarrow> (string \<Rightarrow> string) \<Rightarrow> string \<Rightarrow> state
     \<Rightarrow> (full_response result \<times> state) option" where
  "resolve_domain fuel udp from_text a_domain_name st =
     (case domain_cache st a_domain_name of
        Some res \<Rightarrow> Some (Value res, st)
      | None \<Rightarrow>
          bind (collect_results fuel udp from_text a_domain_name st) (\<lambda>res st1.
            Some (Value res, st1\<lparr>domain_cache := (domain_cache st1)(a_domain_name \<mapsto> res)\<rparr>)))"

text \<open>Lines 210 to 215. \<open>printed\<close> is the sequence of results handed to the printer.\<close>

fun main_loop ::
  "nat \<Rightarrow> transport \<Rightarrow> (string \<Rightarrow> string) \<Rightarrow> string list \<Rightarrow> full_response list \<Rightarrow> state
     \<Rightarrow> (full_response list result \<times> state) option" where
  "main_loop fuel udp from_text [] printed st = Some (Value printed, st)"
| "main_loop fuel udp from_text (a_domain_name # rest) printed st =
     (case resolve_domain fuel udp from_text a_domain_name st of
        None \<Rightarrow> None
      | Some (Error e, st1) \<Rightarrow> Some (Error e, st1)
      | Some (Value res, st1) \<Rightarrow> main_loop fuel udp from_text rest (printed @ [res]) st1)"

definition main ::
  "nat \<Rightarrow> transport \<Rightarrow> (string \<Rightarrow> string) \<Rightarrow> string list \<Rightarrow> state
     \<Rightarrow> (full_response list result \<times> state) option" where
  "main fuel udp from_text names st = main_loop fuel udp from_text (dedup names []) [] st"

section \<open>Specification predicates and sample inputs\<close>

subsection \<open>Relations between the state before and after\<close>

text \<open>
  \<open>stable R\<close>: the two primitive state changes of the engine, a call of the glue
  extractor and an entry in the observation log, keep the relation \<open>R\<close> to an earlier
  state. \<open>preserved R rec\<close>: so does every call of \<open>rec\<close>.
\<close>

definition stable :: "(state \<Rightarrow> state \<Rightarrow> bool) \<Rightarrow> bool" where
  "stable R =
     ((\<forall>a s st r st'. dns_caching s st = (r, st') \<longrightarrow> R a st \<longrightarrow> R a st')
      \<and> (\<forall>a e st. R a st \<longrightarrow> R a (log e st)))"

definition preserved :: "(state \<Rightarrow> state \<Rightarrow> bool) \<Rightarrow> engine \<Rightarrow> bool" where
  "preserved R rec =
     (\<forall>a t q s st r st'. rec t q s st = Some (r, st') \<longrightarrow> R a st \<longrightarrow> R a st')"

text \<open>
  The cache \<open>c'\<close> has every key of \<open>c\<close>, and under it the addresses of \<open>c\<close> in their
  order, possibly followed by more.
\<close>

definition cache_grows ::
  "(string \<rightharpoonup> string list) \<Rightarrow> (string \<rightharpoonup> string list) \<Rightarrow> bool" where
  "cache_grows c c' = (\<forall>k v. c k = Some v \<longrightarrow> (\<exists>v'. c' k = Some (v @ v')))"

text \<open>No address is listed twice under a key: the lists are sets.\<close>

definition no_repeats :: "(string \<rightharpoonup> string list) \<Rightarrow> bool" where
  "no_repeats c = (\<forall>k v. c k = Some v \<longrightarrow> distinct v)"

definition additive :: "state \<Rightarrow> state \<Rightarrow> bool" where
  "additive a st =
     (cache_grows (dns_cache a) (dns_cache st)
      \<and> (no_repeats (dns_cache a) \<longrightarrow> no_repeats (dns_cache st)))"

subsection \<open>Depth allowances\<close>

text \<open>Whatever \<open>rec\<close> returns, \<open>rec'\<close> returns too.\<close>

definition extends :: "engine \<Rightarrow> engine \<Rightarrow> bool" where
  "extends rec rec' = (\<forall>t q s st r. rec t q s st = Some r \<longrightarrow> rec' t q s st = Some r)"

subsection \<open>Answers\<close>

text \<open>The records of the answer section, in the order the engine walks them.\<close>

definition records :: "message \<Rightarrow> rdata list" where
  "records m = concat (map rdatas (answer m))"

text \<open>The answer section of \<open>m\<close> holds a record of type \<open>q\<close>.\<close>

definition has_type :: "nat \<Rightarrow> message \<Rightarrow> bool" where
  "has_type q m = list_ex (\<lambda>r. rdtype r = q) (records m)"

text \<open>Every response that \<open>rec\<close> returns holds a record of the type asked for.\<close>

definition answers_type :: "engine \<Rightarrow> bool" where
  "answers_type rec =
     (\<forall>t q s st m st'. rec t q s st = Some (Value (Some m), st') \<longrightarrow> has_type q m)"

text \<open>A record the answer walk passes over: neither of the type asked for nor a CNAME.\<close>

definition undecided :: "nat \<Rightarrow> rdata \<Rightarrow> bool" where
  "undecided q x = (rdtype x \<noteq> q \<and> rdtype x \<noteq> 5)"

subsection \<open>Names as lists of labels\<close>

text \<open>\<^verbatim>\<open>".".join(labels)\<close>: the name whose dot-separated pieces are \<open>labels\<close>.\<close>

fun join_dot :: "string list \<Rightarrow> string" where
  "join_dot [] = []"
| "join_dot [l] = l"
| "join_dot (l # m # ls) = l @ ''.'' @ join_dot (m # ls)"

subsection \<open>Where a result comes from\<close>




subsection \<open>The host names of a referral without glue\<close>

text \<open>
  The host names of some authority record sets: the text of every record that is not of
  type 6, without its last character.
\<close>

definition ns_hosts :: "rrset list \<Rightarrow> string list" where
  "ns_hosts gs =
     map (\<lambda>a. butlast (to_text a)) (filter (\<lambda>a. rdtype a \<noteq> 6) (concat (map rdatas gs)))"



subsection \<open>Sample inputs\<close>

text \<open>The state of a fresh process: both dictionaries empty, nothing observed.\<close>

definition st0 :: state where
  "st0 = \<lparr>dns_cache = Map.empty, domain_cache = Map.empty, trace = []\<rparr>"


text \<open>
  A stand-in for \<^verbatim>\<open>str(dns.name.from_text(name))\<close> on plain names: the name with the dot of
  the root at its end.
\<close>

definition absolute :: "string \<Rightarrow> string" where
  "absolute name = (if name \<noteq> [] \<and> last name = CHR ''.'' then name else name @ ''.'')"

text \<open>A state whose cache knows one server for the zone label \<^verbatim>\<open>com\<close>.\<close>

definition st_com :: state where
  "st_com = st0\<lparr>dns_cache := [''com'' \<mapsto> [''192.0.2.1'']]\<rparr>"



text \<open>
  Messages as dnspython renders them: a record set of one record prints as owner, TTL,
  class, type and data.
\<close>

definition mk_rd :: "nat \<Rightarrow> string \<Rightarrow> rdata" where
  "mk_rd code txt = \<lparr>rdtype = code, to_text = txt, preference = 0, exchange = []\<rparr>"

definition rr :: "string \<Rightarrow> nat \<Rightarrow> string \<Rightarrow> string \<Rightarrow> rrset" where
  "rr owner code mnemonic txt =
     \<lparr>rname = owner, rtext = owner @ '' 300 IN '' @ mnemonic @ '' '' @ txt,
      rdatas = [mk_rd code txt]\<rparr>"

definition answer_msg :: "rrset list \<Rightarrow> message" where
  "answer_msg rs = \<lparr>answer = rs, authority = [], additional = []\<rparr>"

definition referral :: "rrset list \<Rightarrow> rrset list \<Rightarrow> message" where
  "referral auth glue = \<lparr>answer = [], authority = auth, additional = glue\<rparr>"

text \<open>
  A small internet. The first root server delegates \<^verbatim>\<open>com\<close> with glue and \<^verbatim>\<open>example.org\<close>
  without; the \<^verbatim>\<open>com\<close> server delegates \<^verbatim>\<open>example.com\<close> with glue; the server of
  \<^verbatim>\<open>example.com\<close> answers. The other root servers are unreachable. Names are compared
  in absolute form, as the library sends them.
\<close>

definition com_names :: "string list" where
  "com_names = [''www.example.com.'', ''alias.example.com.'', ''ns1.example.com.'']"

definition sample_net :: transport where
  "sample_net clock qname qtype server =
     (if server = ''198.41.0.4'' then
        (if absolute qname = ''example.org.'' then
           Some (referral [rr ''example.org.'' 2 ''NS'' ''ns1.example.com.''] [])
         else if absolute qname \<in> set com_names then
           Some (referral [rr ''com.'' 2 ''NS'' ''a.gtld-servers.net.'']
                          [rr ''a.gtld-servers.net.'' 1 ''A'' ''192.5.6.30''])
         else None)
      else if server = ''192.5.6.30'' then
        (if absolute qname \<in> set com_names then
           Some (referral [rr ''example.com.'' 2 ''NS'' ''ns1.example.com.'']
                          [rr ''ns1.example.com.'' 1 ''A'' ''192.0.2.53''])
         else None)
      else if server = ''192.0.2.53'' then
        (if absolute qname = ''alias.example.com.'' then
           Some (answer_msg [rr ''alias.example.com.'' 5 ''CNAME'' ''www.example.com.''])
         else if absolute qname = ''www.example.com.'' \<and> qtype = 1 then
           Some (answer_msg [rr ''www.example.com.'' 1 ''A'' ''93.184.216.34''])
         else if absolute qname = ''ns1.example.com.'' \<and> qtype = 1 then
           Some (answer_msg [rr ''ns1.example.com.'' 1 ''A'' ''192.0.2.53''])
         else if absolute qname = ''example.org.'' \<and> qtype = 1 then
           Some (answer_msg [rr ''example.org.'' 1 ''A'' ''198.51.100.7''])
         else None)
      else None)"

text \<open>Two answers of the server of \<^verbatim>\<open>example.com\<close>.\<close>

definition www_answer :: message where
  "www_answer = answer_msg [rr ''www.example.com.'' 1 ''A'' ''93.184.216.34'']"

definition alias_answer :: message where
  "alias_answer = answer_msg [rr ''alias.example.com.'' 5 ''CNAME'' ''www.example.com.'']"






text \<open>
  Three servers asked for an AAAA record: the first answers with an A record, the second
  refers to the third with glue, the third has the record.
\<close>

definition net_mixed :: transport where
  "net_mixed clock qname qtype server =
     (if server = ''192.0.2.1'' then
        Some (answer_msg [rr ''host.example.'' 1 ''A'' ''192.0.2.10''])
      else if server = ''192.0.2.2'' then
        Some (referral [rr ''example.'' 2 ''NS'' ''ns.example.'']
                       [rr ''ns.example.'' 1 ''A'' ''192.0.2.53''])
      else if server = ''192.0.2.53'' \<and> absolute qname = ''host.example.'' \<and> qtype = 28 then
        Some (answer_msg [rr ''host.example.'' 28 ''AAAA'' ''2001:db8::10''])
      else None)"

text \<open>
  A response to a CNAME query that carries the address of the target after the alias, a
  server that gives it, and a state whose cache leads to that server.
\<close>

definition alias_with_address :: message where
  "alias_with_address =
     answer_msg [rr ''alias.example.com.'' 5 ''CNAME'' ''www.example.com.'',
                 rr ''www.example.com.'' 1 ''A'' ''93.184.216.34'']"

definition net_extra :: transport where
  "net_extra clock qname qtype server =
     (if server = ''192.0.2.53'' \<and> absolute qname = ''alias.example.com.'' \<and> qtype = 5
      then Some alias_with_address else None)"

definition st_com53 :: state where
  "st_com53 = st0\<lparr>dns_cache := [''com'' \<mapsto> [''192.0.2.53'']]\<rparr>"

text \<open>
  The state whose cache knows two servers for the zone label \<^verbatim>\<open>com\<close>.
\<close>

definition st_two :: state where
  "st_two = st0\<lparr>dns_cache := [''com'' \<mapsto> [''192.0.2.1'', ''192.0.2.2'']]\<rparr>"

text \<open>
  A server of \<^verbatim>\<open>example.com\<close> whose alias points to a name of a single label.
\<close>

definition net_single :: transport where
  "net_single clock qname qtype server =
     (if server = ''192.0.2.53'' \<and> absolute qname = ''alias.example.com.'' \<and> qtype = 5
      then Some (answer_msg [rr ''alias.example.com.'' 5 ''CNAME'' ''localhost.''])
      else None)"

text \<open>A glue record set with two addresses, as the library prints it: one line for each record.\<close>

definition two_glue :: rrset where
  "two_glue =
     \<lparr>rname = ''ns.example.'',
      rtext = ''ns.example. 300 IN A 192.0.2.53'' @ [CHR 0x0A] @ ''ns.example. 300 IN A 192.0.2.54'',
      rdatas = [mk_rd 1 ''192.0.2.53'', mk_rd 1 ''192.0.2.54'']\<rparr>"

text \<open>The address record of \<^verbatim>\<open>host.example.\<close>\<close>

definition host_answer :: message where
  "host_answer = answer_msg [rr ''host.example.'' 1 ''A'' ''192.0.2.10'']"

text \<open>A chain of depth one: 192.0.2.1 refers to the name server of \<^verbatim>\<open>example.\<close> with the glue of both its addresses; 192.0.2.53 has the answer, 192.0.2.54 is down.\<close>

definition net_two_glue :: transport where
  "net_two_glue clock qname qtype server =
     (if server = ''192.0.2.1'' then
        Some (referral [rr ''example.'' 2 ''NS'' ''ns.example.''] [two_glue])
      else if server = ''192.0.2.53'' \<and> absolute qname = ''host.example.'' \<and> qtype = 1 then
        Some host_answer
      else None)"

text \<open>The state of a fresh process whose cache knows 192.0.2.54 alone for \<^verbatim>\<open>example\<close>.\<close>

definition st_54 :: state where
  "st_54 = st0\<lparr>dns_cache := [''example'' \<mapsto> [''192.0.2.54'']]\<rparr>"

section \<open>Properties\<close>

subsection \<open>Splitting at dots\<close>

lemma length_split_on:
  "length (split_on sep w s) = Suc (length (filter (\<lambda>c. c = sep) s))"
  by (induction s arbitrary: w) auto

lemma length_split_dot:
  "length (split_dot s) = Suc (length (filter (\<lambda>c. c = CHR ''.'') s))"
  by (simp add: split_dot_def length_split_on)

lemma split_dot_short_iff: "length (split_dot s) < 2 \<longleftrightarrow> CHR ''.'' \<notin> set s"
  by (auto simp: length_split_dot filter_empty_conv)

subsection \<open>A larger depth allowance changes no result\<close>

text \<open>
  The depth allowance is an artefact of the model. What the engine returns within some
  allowance it returns within every larger one, so a statement about a returned result
  does not depend on the allowance chosen.
\<close>

lemma extendsD: "extends rec rec' \<Longrightarrow> rec t q s st = Some r \<Longrightarrow> rec' t q s st = Some r"
  unfolding extends_def by blast

lemma ns_answer_loop_mono:
  assumes e: "extends rec rec'"
  shows "ns_answer_loop rec t q xs st = Some r \<Longrightarrow> ns_answer_loop rec' t q xs st = Some r"
proof (induction xs arbitrary: st)
  case Nil
  then show ?case by simp
next
  case (Cons x xs)
  obtain d st1 where d: "dns_caching (rtext x) st = (d, st1)" by (cases "dns_caching (rtext x) st")
  show ?case
  proof (cases d)
    case (Error err)
    with Cons.prems d show ?thesis by simp
  next
    case (Value addrs)
    show ?thesis
    proof (cases "rec t q addrs st1")
      case None
      with Cons.prems d Value show ?thesis by simp
    next
      case (Some p)
      note p' = extendsD [OF e Some]
      from Cons.prems d Value Some p' Cons.IH show ?thesis
        by (auto split: prod.splits result.splits option.splits)
    qed
  qed
qed

lemma host_loop_mono:
  assumes e: "extends rec rec'"
  shows "host_loop rec t q hs st = Some r \<Longrightarrow> host_loop rec' t q hs st = Some r"
proof (induction hs arbitrary: st)
  case Nil
  then show ?case by simp
next
  case (Cons h hs)
  show ?case
  proof (cases "rec h 1 ROOT_SERVERS (log (Restart h 1) st)")
    case None
    with Cons.prems show ?thesis by simp
  next
    case (Some p)
    note p' = extendsD [OF e Some]
    obtain v st1 where p: "p = (v, st1)" by (cases p)
    show ?thesis
    proof (cases v)
      case (Error err)
      with Cons.prems Some p' p show ?thesis by simp
    next
      case (Value m)
      show ?thesis
      proof (cases m)
        case None
        with Cons.prems Some p' p Value Cons.IH show ?thesis by simp
      next
        case (Some a)
        show ?thesis
        proof (cases "ns_answer_loop rec t q (answer a) st1")
          case None
          with Cons.prems \<open>rec h 1 ROOT_SERVERS (log (Restart h 1) st) = Some p\<close> p Value Some
          show ?thesis by simp
        next
          case (Some w)
          note w' = ns_answer_loop_mono [OF e Some]
          from Cons.prems \<open>rec h 1 ROOT_SERVERS (log (Restart h 1) st) = Some p\<close> p' p Value
            \<open>m = Some a\<close> Some w' Cons.IH
          show ?thesis by (auto split: prod.splits ctl.splits)
        qed
      qed
    qed
  qed
qed

lemma authority_loop_mono:
  assumes e: "extends rec rec'"
  shows "authority_loop rec t q gs ns st = Some r \<Longrightarrow> authority_loop rec' t q gs ns st = Some r"
proof (induction gs arbitrary: ns st)
  case Nil
  then show ?case by simp
next
  case (Cons g gs)
  show ?case
  proof (cases "host_loop rec t q (collect_ns (rdatas g) ns) st")
    case None
    with Cons.prems show ?thesis by simp
  next
    case (Some w)
    note w' = host_loop_mono [OF e Some]
    from Cons.prems Some w' Cons.IH show ?thesis
      by (auto split: prod.splits ctl.splits)
  qed
qed

lemma record_loop_mono:
  assumes e: "extends rec rec'"
  shows "record_loop rec q resp xs tn st = Some r \<Longrightarrow> record_loop rec' q resp xs tn st = Some r"
proof (induction xs arbitrary: tn st)
  case Nil
  then show ?case by simp
next
  case (Cons x xs)
  show ?case
  proof (cases "rdtype x \<noteq> q \<and> rdtype x = 5")
    case False
    with Cons show ?thesis by (auto split: if_splits)
  next
    case True
    show ?thesis
    proof (cases "rec (butlast (to_text x)) q ROOT_SERVERS
                    (log (Restart (butlast (to_text x)) q) st)")
      case None
      with Cons.prems True show ?thesis by simp
    next
      case (Some p)
      note p' = extendsD [OF e Some]
      from Cons.prems True Some p' show ?thesis by simp
    qed
  qed
qed

lemma answer_loop_mono:
  assumes e: "extends rec rec'"
  shows "answer_loop rec q resp xs tn st = Some r \<Longrightarrow> answer_loop rec' q resp xs tn st = Some r"
proof (induction xs arbitrary: tn st)
  case Nil
  then show ?case by simp
next
  case (Cons x xs)
  show ?case
  proof (cases "record_loop rec q resp (rdatas x) tn st")
    case None
    with Cons.prems show ?thesis by simp
  next
    case (Some w)
    note w' = record_loop_mono [OF e Some]
    from Cons.prems Some w' Cons.IH show ?thesis
      by (auto split: prod.splits ctl.splits)
  qed
qed

lemma server_loop_mono:
  assumes e: "extends rec rec'"
  shows "server_loop udp rec qn q ss tn st = Some r \<Longrightarrow> server_loop udp rec' qn q ss tn st = Some r"
proof (induction ss arbitrary: tn st)
  case Nil
  then show ?case by simp
next
  case (Cons sv ss)
  let ?st1 = "log (Sent qn q sv) st"
  show ?case
  proof (cases "udp (length (trace st)) qn q sv")
    case None
    with Cons show ?thesis by simp
  next
    case (Some resp)
    show ?thesis
    proof (cases "answer resp = []")
      case False
      show ?thesis
      proof (cases "answer_loop rec q resp (answer resp) tn ?st1")
        case None
        with Cons.prems \<open>udp (length (trace st)) qn q sv = Some resp\<close> False show ?thesis by simp
      next
        case w: (Some w)
        note w' = answer_loop_mono [OF e w]
        from Cons.prems Some False w w' Cons.IH show ?thesis
          by (auto split: prod.splits ctl.splits)
      qed
    next
      case True
      show ?thesis
      proof (cases "additional resp = []")
        case False
        obtain g st2 where g: "glue_loop (additional resp) [] ?st1 = (g, st2)"
          by (cases "glue_loop (additional resp) [] ?st1")
        show ?thesis
        proof (cases g)
          case (Error err)
          with Cons.prems Some True False g show ?thesis by simp
        next
          case (Value addrs)
          with Cons.prems Some True False g have "rec tn q addrs st2 = Some r" by simp
          from extendsD [OF e this] Some True False g Value show ?thesis by simp
        qed
      next
        case a: True
        show ?thesis
        proof (cases "authority_loop rec tn q (authority resp) [] ?st1")
          case None
          with Cons.prems Some True a show ?thesis by simp
        next
          case w: (Some w)
          note w' = authority_loop_mono [OF e w]
          from Cons.prems Some True a w w' Cons.IH show ?thesis
            by (auto split: prod.splits ctl.splits)
        qed
      qed
    qed
  qed
qed

lemma recurlookup_body_mono:
  "extends rec rec' \<Longrightarrow> extends (recurlookup_body udp rec) (recurlookup_body udp rec')"
  unfolding extends_def [of "recurlookup_body udp rec"] recurlookup_body_def
  by (auto dest: server_loop_mono)

lemma recurlookup_Suc_mono: "extends (recurlookup n udp) (recurlookup (Suc n) udp)"
proof (induction n)
  case 0
  have "extends no_return (recurlookup 0 udp)" by (simp add: extends_def no_return_def)
  then show ?case by (simp add: recurlookup_body_mono)
next
  case (Suc n)
  then show ?case by (simp add: recurlookup_body_mono)
qed

lemma recurlookup_fuel_mono:
  "recurlookup n udp t q s st = Some r \<Longrightarrow> recurlookup (n + k) udp t q s st = Some r"
proof (induction k)
  case 0
  then show ?case by simp
next
  case (Suc k)
  from extendsD [OF recurlookup_Suc_mono Suc.IH [OF Suc.prems]] show ?case by simp
qed

subsection \<open>The glue extractor raises on an owner name without a dot\<close>

lemma caching_loop_raises:
  assumes "''A'' \<in> set toks" and "length (split_dot t0) < 2"
  shows "caching_loop (t0 # ts) toks address c = (Error IndexError, c)"
  using assms by (induction toks arbitrary: address) (auto simp: index_m2_def)

text \<open>
  Claim C10. The glue extractor is not total: when the text has the token \<^verbatim>\<open>A\<close> standing
  alone and its first token has fewer than two dot-separated pieces, \<^verbatim>\<open>dns_caching\<close>
  raises IndexError (and leaves the cache as it was) instead of ignoring the record. The
  text \<^verbatim>\<open>localhost A 1.2.3.4\<close> is such an input.
\<close>

theorem dns_caching_raises_IndexError:
  assumes "split_space s = t0 # ts" and "''A'' \<in> set (t0 # ts)"
    and "length (split_dot t0) < 2"
  shows "dns_caching s st = (Error IndexError, st)"
  using assms caching_loop_raises [of "t0 # ts" t0 ts "[]" "dns_cache st"]
  by (simp add: dns_caching_def)

theorem dns_caching_raises_IndexError_witness:
  "split_space ''localhost A 1.2.3.4'' = [''localhost'', ''A'', ''1.2.3.4'']
   \<and> ''A'' \<in> set [''localhost'', ''A'', ''1.2.3.4'']
   \<and> length (split_dot ''localhost'') < 2
   \<and> dns_caching ''localhost A 1.2.3.4''
         \<lparr>dns_cache = Map.empty, domain_cache = Map.empty, trace = []\<rparr>
       = (Error IndexError, \<lparr>dns_cache = Map.empty, domain_cache = Map.empty, trace = []\<rparr>)"
proof -
  have a: "split_space ''localhost A 1.2.3.4'' = [''localhost'', ''A'', ''1.2.3.4'']"
    by (simp add: split_space_def is_space_def)
  have b: "''A'' \<in> set [''localhost'', ''A'', ''1.2.3.4'']" by simp
  have c: "length (split_dot ''localhost'') < 2" by (simp add: split_dot_def)
  show ?thesis using a b c dns_caching_raises_IndexError [OF a b c] by simp
qed

subsection \<open>The state only grows\<close>

lemma stable_dnsD: "stable R \<Longrightarrow> dns_caching s st = (r, st') \<Longrightarrow> R a st \<Longrightarrow> R a st'"
  unfolding stable_def by blast

lemma stable_logD: "stable R \<Longrightarrow> R a st \<Longrightarrow> R a (log e st)"
  unfolding stable_def by blast

lemma preservedD: "preserved R rec \<Longrightarrow> rec t q s st = Some (r, st') \<Longrightarrow> R a st \<Longrightarrow> R a st'"
  unfolding preserved_def by blast

lemma preserved_logD:
  "stable R \<Longrightarrow> preserved R rec \<Longrightarrow> rec t q s (log e st) = Some (r, st') \<Longrightarrow> R a st
     \<Longrightarrow> R a st'"
  by (blast dest: stable_logD preservedD)

lemma glue_loop_inv:
  assumes "stable R"
  shows "glue_loop xs acc st = (r, st') \<Longrightarrow> R a st \<Longrightarrow> R a st'"
  by (induction xs arbitrary: acc st)
     (auto split: prod.splits result.splits dest: stable_dnsD [OF assms])

lemma ns_answer_loop_inv:
  assumes s: "stable R" and rc: "preserved R rec"
  shows "ns_answer_loop rec t q xs st = Some (r, st') \<Longrightarrow> R a st \<Longrightarrow> R a st'"
  by (induction xs arbitrary: st)
     (auto split: prod.splits result.splits option.splits
           dest: stable_dnsD [OF s] preservedD [OF rc])

lemma host_loop_inv:
  assumes s: "stable R" and rc: "preserved R rec"
  shows "host_loop rec t q hs st = Some (r, st') \<Longrightarrow> R a st \<Longrightarrow> R a st'"
  by (induction hs arbitrary: st)
     (auto split: prod.splits result.splits option.splits ctl.splits
           dest: preserved_logD [OF s rc] ns_answer_loop_inv [OF s rc])

lemma authority_loop_inv:
  assumes s: "stable R" and rc: "preserved R rec"
  shows "authority_loop rec t q gs ns st = Some (r, st') \<Longrightarrow> R a st \<Longrightarrow> R a st'"
  by (induction gs arbitrary: ns st)
     (auto split: prod.splits result.splits option.splits ctl.splits
           dest: host_loop_inv [OF s rc])

lemma record_loop_inv:
  assumes s: "stable R" and rc: "preserved R rec"
  shows "record_loop rec q resp xs tn st = Some (r, st') \<Longrightarrow> R a st \<Longrightarrow> R a st'"
  by (induction xs arbitrary: tn st)
     (auto split: prod.splits result.splits option.splits ctl.splits if_splits
           dest: preserved_logD [OF s rc])

lemma answer_loop_inv:
  assumes s: "stable R" and rc: "preserved R rec"
  shows "answer_loop rec q resp xs tn st = Some (r, st') \<Longrightarrow> R a st \<Longrightarrow> R a st'"
  by (induction xs arbitrary: tn st)
     (auto split: prod.splits result.splits option.splits ctl.splits
           dest: record_loop_inv [OF s rc])

lemma server_loop_inv:
  assumes s: "stable R" and rc: "preserved R rec"
  shows "server_loop udp rec qn q ss tn st = Some (r, st') \<Longrightarrow> R a st \<Longrightarrow> R a st'"
proof (induction ss arbitrary: tn st)
  case Nil
  then show ?case by simp
next
  case (Cons sv ss)
  have l: "R a (log (Sent qn q sv) st)" using s Cons.prems(2) by (rule stable_logD)
  show ?case
  proof (cases "udp (length (trace st)) qn q sv")
    case None
    with Cons.prems(1) have "server_loop udp rec qn q ss tn (log (Sent qn q sv) st) = Some (r, st')"
      by simp
    then show ?thesis using l by (rule Cons.IH)
  next
    case (Some resp)
    show ?thesis using Cons.prems(1) Some l
      by (auto split: prod.splits result.splits option.splits ctl.splits if_splits
            dest: authority_loop_inv [OF s rc] glue_loop_inv [OF s] answer_loop_inv [OF s rc]
              preservedD [OF rc] Cons.IH)
  qed
qed

lemma recurlookup_body_inv:
  assumes s: "stable R" and rc: "preserved R rec"
  shows "preserved R (recurlookup_body udp rec)"
  unfolding preserved_def recurlookup_body_def
  by (auto split: if_splits dest: server_loop_inv [OF s rc])

lemma recurlookup_inv:
  assumes s: "stable R"
  shows "preserved R (recurlookup n udp)"
proof (induction n)
  case 0
  have "preserved R no_return" by (simp add: preserved_def no_return_def)
  then show ?case by (simp add: recurlookup_body_inv [OF s])
next
  case (Suc n)
  then show ?case by (simp add: recurlookup_body_inv [OF s])
qed


lemma cache_grows_refl: "cache_grows c c"
  by (simp add: cache_grows_def)

lemma cache_grows_trans: "cache_grows a b \<Longrightarrow> cache_grows b c \<Longrightarrow> cache_grows a c"
  unfolding cache_grows_def by (metis append.assoc)

lemma cache_merge_unseen: "c k = None \<Longrightarrow> cache_merge k addr c = c(k \<mapsto> [addr])"
  by (simp add: cache_merge_def)

lemma cache_merge_idem: "cache_merge k addr (cache_merge k addr c) = cache_merge k addr c"
  by (auto simp: cache_merge_def split: option.splits)

lemma cache_merge_grows: "cache_grows c (cache_merge k addr c)"
  by (auto simp: cache_merge_def cache_grows_def split: option.splits)

lemma cache_merge_no_repeats: "no_repeats c \<Longrightarrow> no_repeats (cache_merge k addr c)"
  by (auto simp: cache_merge_def no_repeats_def split: option.splits if_splits)

lemma caching_loop_grows:
  "caching_loop type_is toks address c = (r, c') \<Longrightarrow> cache_grows c c'"
proof (induction toks arbitrary: address c)
  case Nil
  then show ?case by (simp add: cache_grows_refl)
next
  case (Cons a toks)
  then show ?case
    by (auto simp: cache_grows_refl split: if_splits list.splits result.splits
             intro: cache_grows_trans [OF cache_merge_grows])
qed

lemma caching_loop_no_repeats:
  "caching_loop type_is toks address c = (r, c') \<Longrightarrow> no_repeats c \<Longrightarrow> no_repeats c'"
  by (induction toks arbitrary: address c)
     (auto split: if_splits list.splits result.splits dest: cache_merge_no_repeats)

lemma dns_caching_grows:
  "dns_caching s st = (r, st') \<Longrightarrow> cache_grows (dns_cache st) (dns_cache st')"
  by (auto simp: dns_caching_def split: prod.splits dest: caching_loop_grows)

lemma dns_caching_no_repeats:
  "dns_caching s st = (r, st') \<Longrightarrow> no_repeats (dns_cache st) \<Longrightarrow> no_repeats (dns_cache st')"
  by (auto simp: dns_caching_def split: prod.splits dest: caching_loop_no_repeats)

lemma stable_additive: "stable additive"
  unfolding stable_def additive_def log_def
  by (auto dest: dns_caching_grows dns_caching_no_repeats intro: cache_grows_trans)

lemma additive_refl: "additive st st"
  by (simp add: additive_def cache_grows_refl)

lemma lookup_inv:
  assumes s: "stable R"
  shows "lookup n udp t q st = Some (r, st') \<Longrightarrow> R a st \<Longrightarrow> R a st'"
  unfolding lookup_def
  by (auto split: result.splits option.splits dest: preservedD [OF recurlookup_inv [OF s]])

lemma bind_inv:
  assumes "bind m f = Some (r, st')" and "R a st"
    and "\<And>x st1. m = Some (x, st1) \<Longrightarrow> R a st1"
    and "\<And>v st1. f v st1 = Some (r, st') \<Longrightarrow> R a st1 \<Longrightarrow> R a st'"
  shows "R a st'"
  using assms by (auto simp: bind_def split: option.splits prod.splits result.splits)

lemma collect_results_inv:
  assumes s: "stable R"
  shows "collect_results n udp ft name st = Some (r, st') \<Longrightarrow> R a st \<Longrightarrow> R a st'"
  unfolding collect_results_def Let_def
  apply (erule bind_inv, assumption)
   apply (erule (1) lookup_inv [OF s])
  apply (erule bind_inv, assumption)
   apply (erule (1) lookup_inv [OF s])
  apply (erule bind_inv, assumption)
   apply (erule (1) lookup_inv [OF s])
  apply (erule bind_inv, assumption)
   apply (erule (1) lookup_inv [OF s])
  apply simp
  done


lemma resolve_domain_additive:
  "resolve_domain n udp ft name st = Some (r, st') \<Longrightarrow> additive a st \<Longrightarrow> additive a st'"
  unfolding resolve_domain_def
  by (auto simp: bind_def additive_def split: option.splits prod.splits result.splits
           dest!: collect_results_inv [OF stable_additive, unfolded additive_def])

lemma main_loop_additive:
  "main_loop n udp ft names printed st = Some (r, st') \<Longrightarrow> additive a st \<Longrightarrow> additive a st'"
  by (induction names arbitrary: printed st)
     (auto split: option.splits prod.splits result.splits dest: resolve_domain_additive)

lemma main_additive:
  "main n udp ft names st = Some (r, st') \<Longrightarrow> additive st st'"
  unfolding main_def by (erule main_loop_additive) (rule additive_refl)

lemma cache_merge_known_new:
  "c k = Some old \<Longrightarrow> addr \<notin> set old \<Longrightarrow> cache_merge k addr c = c(k \<mapsto> old @ [addr])"
  by (simp add: cache_merge_def)

lemma cache_merge_known_old:
  "c k = Some old \<Longrightarrow> addr \<in> set old \<Longrightarrow> cache_merge k addr c = c"
  by (simp add: cache_merge_def)

lemma cache_merge_member: "\<exists>v. cache_merge k addr c k = Some v \<and> addr \<in> set v"
  by (auto simp: cache_merge_def split: option.splits)

lemma cache_merge_other: "k' \<noteq> k \<Longrightarrow> cache_merge k addr c k' = c k'"
  by (auto simp: cache_merge_def split: option.splits)

lemma distinct_count_one: "distinct v \<Longrightarrow> x \<in> set v \<Longrightarrow> count_list v x = 1"
  by (induction v) auto

lemma cache_merge_once:
  assumes "no_repeats c"
  shows "\<exists>v. cache_merge k addr (cache_merge k addr c) k = Some v \<and> count_list v addr = 1"
proof -
  obtain v where v: "cache_merge k addr c k = Some v" and m: "addr \<in> set v"
    using cache_merge_member by blast
  have "no_repeats (cache_merge k addr c)" using assms by (rule cache_merge_no_repeats)
  with v have "distinct v" unfolding no_repeats_def by blast
  with m have "count_list v addr = 1" by (simp add: distinct_count_one)
  with v show ?thesis by (simp add: cache_merge_idem)
qed

lemma caching_loop_closed:
  assumes "index_m2 (split_dot t0) = Value k"
  shows "caching_loop (t0 # ts) toks address c =
           (if ''A'' \<in> set toks
            then (Value [last (t0 # ts)], cache_merge k (last (t0 # ts)) c)
            else (Value address, c))"
proof (induction toks arbitrary: address c)
  case Nil
  then show ?case by simp
next
  case (Cons a toks)
  show ?case
  proof (cases "a = ''A''")
    case True
    then show ?thesis
      using assms Cons.IH [of "[last (t0 # ts)]" "cache_merge k (last (t0 # ts)) c"]
      by (simp add: cache_merge_idem del: last.simps)
  next
    case False
    then show ?thesis using Cons.IH [of address c] by simp
  qed
qed

lemma dns_caching_closed:
  assumes "split_space s = t0 # ts" and "index_m2 (split_dot t0) = Value k"
  shows "dns_caching s st =
           (if ''A'' \<in> set (t0 # ts)
            then (Value [last (t0 # ts)],
                  st\<lparr>dns_cache := cache_merge k (last (t0 # ts)) (dns_cache st)\<rparr>)
            else (Value [], st))"
  using assms caching_loop_closed [OF assms(2), of ts "t0 # ts" "[]" "dns_cache st"]
  by (simp add: dns_caching_def del: last.simps)

lemma dns_caching_no_tokens: "split_space s = [] \<Longrightarrow> dns_caching s st = (Value [], st)"
  by (simp add: dns_caching_def)

text \<open>
  Claim C7. Merging an address under a zone label: under an unseen label the entry is
  created with that address alone; under a known label the address is appended when the
  entry does not have it and nothing changes when it does; either way the address is in
  the entry afterwards and no other entry changes. Merging it again changes nothing, so
  in a cache without repeated addresses it is there exactly once. A merge only appends,
  and a cache without repeated addresses stays so. A call of the glue extractor on a
  text with the token \<^verbatim>\<open>A\<close> is one such merge of the last token, under the label before
  the last of the first token, and on a text without that token it changes nothing. One
  call of the glue extractor and a whole run of \<^verbatim>\<open>main\<close> therefore leave every key and
  every address of the cache in place.
\<close>

theorem address_cache_idempotent_additive:
  "(c Z = None \<longrightarrow> cache_merge Z A c = c(Z \<mapsto> [A]))
   \<and> (c Z = Some old \<and> A \<notin> set old \<longrightarrow> cache_merge Z A c = c(Z \<mapsto> old @ [A]))
   \<and> (c Z = Some old \<and> A \<in> set old \<longrightarrow> cache_merge Z A c = c)
   \<and> (\<exists>v. cache_merge Z A c Z = Some v \<and> A \<in> set v)
   \<and> (K \<noteq> Z \<longrightarrow> cache_merge Z A c K = c K)
   \<and> cache_merge Z A (cache_merge Z A c) = cache_merge Z A c
   \<and> (c Z = None \<longrightarrow> cache_merge Z A (cache_merge Z A c) Z = Some [A])
   \<and> (no_repeats c \<longrightarrow>
        (\<exists>v. cache_merge Z A (cache_merge Z A c) Z = Some v \<and> count_list v A = 1))
   \<and> cache_grows c (cache_merge Z A c)
   \<and> (no_repeats c \<longrightarrow> no_repeats (cache_merge Z A c))
   \<and> (split_space s = t0 # ts \<and> index_m2 (split_dot t0) = Value k \<and> ''A'' \<in> set (t0 # ts) \<longrightarrow>
        dns_caching s st =
          (Value [last (t0 # ts)],
           st\<lparr>dns_cache := cache_merge k (last (t0 # ts)) (dns_cache st)\<rparr>))
   \<and> (''A'' \<notin> set (split_space s) \<longrightarrow> dns_caching s st = (Value [], st))
   \<and> (dns_caching s st = (r, st') \<longrightarrow> additive st st')
   \<and> (main n udp ft names st = Some (out, st'') \<longrightarrow> additive st st'')"
proof -
  have 1: "c Z = None \<longrightarrow> cache_merge Z A c = c(Z \<mapsto> [A])"
    by (simp add: cache_merge_unseen)
  have 2: "c Z = Some old \<and> A \<notin> set old \<longrightarrow> cache_merge Z A c = c(Z \<mapsto> old @ [A])"
    by (simp add: cache_merge_known_new)
  have 3: "c Z = Some old \<and> A \<in> set old \<longrightarrow> cache_merge Z A c = c"
    by (simp add: cache_merge_known_old)
  have 4: "\<exists>v. cache_merge Z A c Z = Some v \<and> A \<in> set v"
    by (rule cache_merge_member)
  have 5: "K \<noteq> Z \<longrightarrow> cache_merge Z A c K = c K"
    by (simp add: cache_merge_other)
  have 6: "cache_merge Z A (cache_merge Z A c) = cache_merge Z A c"
    by (rule cache_merge_idem)
  have 7: "c Z = None \<longrightarrow> cache_merge Z A (cache_merge Z A c) Z = Some [A]"
    by (simp add: cache_merge_idem) (simp add: cache_merge_def)
  have 8: "no_repeats c \<longrightarrow>
        (\<exists>v. cache_merge Z A (cache_merge Z A c) Z = Some v \<and> count_list v A = 1)"
    using cache_merge_once [of c Z A] by blast
  have 9: "cache_grows c (cache_merge Z A c)"
    by (rule cache_merge_grows)
  have 10: "no_repeats c \<longrightarrow> no_repeats (cache_merge Z A c)"
    by (simp add: cache_merge_no_repeats)
  have 11: "split_space s = t0 # ts \<and> index_m2 (split_dot t0) = Value k
              \<and> ''A'' \<in> set (t0 # ts) \<longrightarrow>
        dns_caching s st =
          (Value [last (t0 # ts)],
           st\<lparr>dns_cache := cache_merge k (last (t0 # ts)) (dns_cache st)\<rparr>)"
    using dns_caching_closed [of s t0 ts k st] by auto
  have 12: "''A'' \<notin> set (split_space s) \<longrightarrow> dns_caching s st = (Value [], st)"
  proof (cases "split_space s")
    case Nil
    then show ?thesis by (simp add: dns_caching_no_tokens)
  next
    case (Cons u us)
    have n: "''A'' \<notin> set toks \<Longrightarrow> caching_loop (u # us) toks [] c' = (Value [], c')" for toks c'
      by (induction toks) auto
    show ?thesis using Cons n [of "u # us" "dns_cache st"] by (simp add: dns_caching_def)
  qed
  have 13: "dns_caching s st = (r, st') \<longrightarrow> additive st st'"
    using stable_dnsD [OF stable_additive _ additive_refl] by blast
  have 14: "main n udp ft names st = Some (out, st'') \<longrightarrow> additive st st''"
    by (simp add: main_additive)
  show ?thesis
    apply (intro conjI)
    using 1 2 3 4 5 6 7 8 9 10 11 12 13 14 by blast+
qed

theorem address_cache_idempotent_additive_witness:
  "Map.empty ''com'' = (None :: string list option)
   \<and> cache_merge ''com'' ''192.0.2.1'' Map.empty ''com'' = Some [''192.0.2.1'']
   \<and> cache_merge ''com'' ''192.0.2.1'' (cache_merge ''com'' ''192.0.2.1'' Map.empty) ''com''
       = Some [''192.0.2.1'']
   \<and> cache_grows Map.empty (cache_merge ''com'' ''192.0.2.1'' Map.empty)
   \<and> dns_cache st_com ''com'' = Some [''192.0.2.1'']
   \<and> ''192.0.2.2'' \<notin> set [''192.0.2.1'']
   \<and> cache_merge ''com'' ''192.0.2.2'' (dns_cache st_com) = dns_cache st_two
   \<and> ''192.0.2.2'' \<in> set [''192.0.2.1'', ''192.0.2.2'']
   \<and> cache_merge ''com'' ''192.0.2.2'' (dns_cache st_two) = dns_cache st_two
   \<and> split_space ''ns.example.com. 3600 IN A 192.0.2.2''
       = [''ns.example.com.'', ''3600'', ''IN'', ''A'', ''192.0.2.2'']
   \<and> index_m2 (split_dot ''ns.example.com.'') = Value ''com''
   \<and> dns_caching ''ns.example.com. 3600 IN A 192.0.2.2'' st_com = (Value [''192.0.2.2''], st_two)
   \<and> dns_caching ''ns.example.com. 3600 IN A 192.0.2.2'' st_two = (Value [''192.0.2.2''], st_two)
   \<and> additive st_com st_two"
proof -
  note e = address_cache_idempotent_additive [where c = Map.empty and Z = "''com''"
      and A = "''192.0.2.1''"]
  have a1: "Map.empty ''com'' = (None :: string list option)" by simp
  from e have a2: "cache_merge ''com'' ''192.0.2.1'' Map.empty ''com'' = Some [''192.0.2.1'']"
    by simp
  from e have a3: "cache_merge ''com'' ''192.0.2.1''
      (cache_merge ''com'' ''192.0.2.1'' Map.empty) ''com'' = Some [''192.0.2.1'']"
    by blast
  from e have a4: "cache_grows Map.empty (cache_merge ''com'' ''192.0.2.1'' Map.empty)"
    by blast
  have b1: "dns_cache st_com ''com'' = Some [''192.0.2.1'']" by (simp add: st_com_def st0_def)
  have b2: "''192.0.2.2'' \<notin> set [''192.0.2.1'']" by simp
  have b3: "(dns_cache st_com)(''com'' \<mapsto> [''192.0.2.1''] @ [''192.0.2.2'']) = dns_cache st_two"
    by (simp add: st_com_def st_two_def st0_def)
  have b4: "dns_cache st_two ''com'' = Some [''192.0.2.1'', ''192.0.2.2'']"
    by (simp add: st_two_def st0_def)
  have b5: "''192.0.2.2'' \<in> set [''192.0.2.1'', ''192.0.2.2'']" by simp
  have s: "split_space ''ns.example.com. 3600 IN A 192.0.2.2''
       = [''ns.example.com.'', ''3600'', ''IN'', ''A'', ''192.0.2.2'']"
    by (simp add: split_space_def is_space_def)
  have i: "index_m2 (split_dot ''ns.example.com.'') = Value ''com''"
    by (simp add: split_dot_def index_m2_def)
  note k = address_cache_idempotent_additive [where c = "dns_cache st_com" and Z = "''com''"
      and A = "''192.0.2.2''" and old = "[''192.0.2.1'']"
      and s = "''ns.example.com. 3600 IN A 192.0.2.2''" and st = st_com
      and ?t0.0 = "''ns.example.com.''" and ts = "[''3600'', ''IN'', ''A'', ''192.0.2.2'']"
      and k = "''com''" and r = "Value [''192.0.2.2'']" and st' = st_two]
  from k b1 b2 b3 have c1: "cache_merge ''com'' ''192.0.2.2'' (dns_cache st_com) = dns_cache st_two"
    by simp
  note k2 = address_cache_idempotent_additive [where c = "dns_cache st_two" and Z = "''com''"
      and A = "''192.0.2.2''" and old = "[''192.0.2.1'', ''192.0.2.2'']"
      and s = "''ns.example.com. 3600 IN A 192.0.2.2''" and st = st_two
      and ?t0.0 = "''ns.example.com.''" and ts = "[''3600'', ''IN'', ''A'', ''192.0.2.2'']"
      and k = "''com''"]
  from k2 b4 b5 have c2: "cache_merge ''com'' ''192.0.2.2'' (dns_cache st_two) = dns_cache st_two"
    by blast
  have u: "st_com\<lparr>dns_cache := dns_cache st_two\<rparr> = st_two"
    by (simp add: st_com_def st_two_def st0_def)
  from k s i c1 u have d1: "dns_caching ''ns.example.com. 3600 IN A 192.0.2.2'' st_com
      = (Value [''192.0.2.2''], st_two)"
    by simp
  from k2 s i c2 have d2: "dns_caching ''ns.example.com. 3600 IN A 192.0.2.2'' st_two
      = (Value [''192.0.2.2''], st_two)"
    by simp
  from k d1 have d3: "additive st_com st_two" by blast
  from a1 a2 a3 a4 b1 b2 c1 b5 c2 s i d1 d2 d3 show ?thesis by blast
qed

subsection \<open>The router\<close>

lemma split_on_no_sep:
  "sep \<notin> set l \<Longrightarrow> split_on sep w (l @ rest) = split_on sep (w @ l) rest"
  by (induction l arbitrary: w) auto

lemma split_on_join:
  "ls \<noteq> [] \<Longrightarrow> list_all (\<lambda>l. CHR ''.'' \<notin> set l) ls
     \<Longrightarrow> split_on (CHR ''.'') w (join_dot ls) = (w @ hd ls) # tl ls"
proof (induction ls arbitrary: w rule: join_dot.induct)
  case 1
  then show ?case by simp
next
  case (2 l)
  then show ?case using split_on_no_sep [of "CHR ''.''" l w "[]"] by simp
next
  case (3 l m ls)
  then show ?case using split_on_no_sep [of "CHR ''.''" l w "CHR ''.'' # join_dot (m # ls)"]
    by simp
qed

lemma split_dot_join:
  "ls \<noteq> [] \<Longrightarrow> list_all (\<lambda>l. CHR ''.'' \<notin> set l) ls \<Longrightarrow> split_dot (join_dot ls) = ls"
  using split_on_join [of ls "[]"] by (simp add: split_dot_def)

lemma index_m2_snoc2: "index_m2 (pre @ [k, l]) = Value k"
  by (simp add: index_m2_def nth_append)

lemma lookup_on_labels:
  assumes "list_all (\<lambda>l. CHR ''.'' \<notin> set l) (pre @ [key, lst])"
  shows "lookup fuel udp (join_dot (pre @ [key, lst])) qtype st =
           (case dns_cache st key of
              Some cached_address \<Rightarrow>
                recurlookup fuel udp (join_dot (pre @ [key, lst])) qtype cached_address st
            | None \<Rightarrow> recurlookup fuel udp (join_dot (pre @ [key, lst])) qtype ROOT_SERVERS st)"
proof -
  have "split_dot (join_dot (pre @ [key, lst])) = pre @ [key, lst]"
    using assms by (intro split_dot_join) simp_all
  then show ?thesis by (simp add: lookup_def index_m2_snoc2)
qed

lemma lookup_no_dot:
  "CHR ''.'' \<notin> set name \<Longrightarrow> lookup fuel udp name qtype st = Some (Error IndexError, st)"
  using split_dot_short_iff [of name] by (simp add: lookup_def index_m2_def)

lemma lookup_dot:
  "CHR ''.'' \<in> set name \<Longrightarrow> \<exists>key. index_m2 (split_dot name) = Value key"
  using split_dot_short_iff [of name] by (simp add: index_m2_def)

lemma single_cname_query:
  "lookup fuel net_single ''alias.example.com.'' 5 st_com53
     = Some (Value (Some (answer_msg [rr ''alias.example.com.'' 5 ''CNAME'' ''localhost.''])),
             st_com53\<lparr>trace := [Sent ''alias.example.com.'' 5 ''192.0.2.53'']\<rparr>)"
  by (cases fuel)
     (simp_all add: lookup_def index_m2_def split_dot_def st_com53_def st0_def
        recurlookup_body_def net_single_def absolute_def log_def answer_msg_def rr_def mk_rd_def)

text \<open>
  Claim C5 says that for every lookup the router computes the second-to-last label of the
  name and calls the engine, on the cached servers of that label or on the root servers.
  On \<^verbatim>\<open>localhost\<close>, a name of one label, line 175 raises IndexError and no engine call is
  made, whatever the transport and the state. The aggregator issues that lookup: it takes
  the target \<^verbatim>\<open>localhost.\<close> of a CNAME record without its last character (line 61) and
  asks the router for its addresses (line 64), so that the whole run ends with the
  IndexError after one query. The same name in absolute form is routed as the claim says,
  under the label \<^verbatim>\<open>localhost\<close>.
\<close>

theorem lookup_raises_IndexError_on_single_label:
  "lookup fuel udp ''localhost'' qtype st = Some (Error IndexError, st)
   \<and> collect_results fuel net_single absolute ''alias.example.com'' st_com53
       = Some (Error IndexError,
               st_com53\<lparr>trace := [Sent ''alias.example.com.'' 5 ''192.0.2.53'']\<rparr>)
   \<and> main fuel net_single absolute [''alias.example.com''] st_com53
       = Some (Error IndexError,
               st_com53\<lparr>trace := [Sent ''alias.example.com.'' 5 ''192.0.2.53'']\<rparr>)
   \<and> lookup fuel udp ''localhost.'' qtype st
       = (case dns_cache st ''localhost'' of
            Some cached_address \<Rightarrow> recurlookup fuel udp ''localhost.'' qtype cached_address st
          | None \<Rightarrow> recurlookup fuel udp ''localhost.'' qtype ROOT_SERVERS st)"
proof -
  have a: "lookup fuel udp ''localhost'' qtype st = Some (Error IndexError, st)" for udp qtype st
    by (rule lookup_no_dot) simp
  have b: "collect_results fuel net_single absolute ''alias.example.com'' st_com53
       = Some (Error IndexError,
               st_com53\<lparr>trace := [Sent ''alias.example.com.'' 5 ''192.0.2.53'']\<rparr>)"
    unfolding collect_results_def
    by (simp add: absolute_def single_cname_query [unfolded absolute_def] bind_def a
          answer_msg_def rr_def mk_rd_def)
  have c: "main fuel net_single absolute [''alias.example.com''] st_com53
       = Some (Error IndexError,
               st_com53\<lparr>trace := [Sent ''alias.example.com.'' 5 ''192.0.2.53'']\<rparr>)"
  proof -
    have "domain_cache st_com53 ''alias.example.com'' = None"
      by (simp add: st_com53_def st0_def)
    then show ?thesis by (simp add: main_def resolve_domain_def b bind_def)
  qed
  have d: "lookup fuel udp ''localhost.'' qtype st
       = (case dns_cache st ''localhost'' of
            Some cached_address \<Rightarrow> recurlookup fuel udp ''localhost.'' qtype cached_address st
          | None \<Rightarrow> recurlookup fuel udp ''localhost.'' qtype ROOT_SERVERS st)"
    by (simp add: lookup_def index_m2_def split_dot_def)
  from a b c d show ?thesis by blast
qed

subsection \<open>The driver\<close>












subsection \<open>The answer walk\<close>

lemma record_loop_append:
  "record_loop rec q resp (xs @ ys) tn st =
     (case record_loop rec q resp xs tn st of
        None \<Rightarrow> None
      | Some (Next tn', st') \<Rightarrow> record_loop rec q resp ys tn' st'
      | Some (Raise e, st') \<Rightarrow> Some (Raise e, st')
      | Some (Return r, st') \<Rightarrow> Some (Return r, st'))"
  by (induction xs arbitrary: tn st)
     (auto split: option.splits prod.splits result.splits ctl.splits)

lemma answer_loop_flat:
  "answer_loop rec q resp rrsets tn st =
     record_loop rec q resp (concat (map rdatas rrsets)) tn st"
  by (induction rrsets arbitrary: tn st)
     (auto simp: record_loop_append split: option.splits prod.splits ctl.splits)

lemma record_loop_undecided:
  "list_all (undecided q) pre \<Longrightarrow>
     record_loop rec q resp (pre @ rest) tn st =
       record_loop rec q resp rest (if pre = [] then tn else butlast (to_text (last pre))) st"
  by (induction pre arbitrary: tn) (auto simp: undecided_def)

lemma record_loop_match:
  "rdtype r = q \<Longrightarrow> record_loop rec q resp (r # post) tn st = Some (Return (Some resp), st)"
  by simp

lemma record_loop_cname:
  "rdtype r \<noteq> q \<Longrightarrow> rdtype r = 5 \<Longrightarrow>
     record_loop rec q resp (r # post) tn st =
       (case rec (butlast (to_text r)) q ROOT_SERVERS (log (Restart (butlast (to_text r)) q) st) of
          None \<Rightarrow> None
        | Some (Error e, st1) \<Rightarrow> Some (Raise e, st1)
        | Some (Value v, st1) \<Rightarrow> Some (Return v, st1))"
  by simp

lemma server_loop_answer:
  assumes "udp (length (trace st)) qn q sv = Some resp" and "answer resp \<noteq> []"
  shows "server_loop udp rec qn q (sv # rest) tn st =
           (case record_loop rec q resp (records resp) tn (log (Sent qn q sv) st) of
              None \<Rightarrow> None
            | Some (Next tn', st2) \<Rightarrow> server_loop udp rec qn q rest tn' st2
            | Some (Raise e, st2) \<Rightarrow> Some (Error e, st2)
            | Some (Return r, st2) \<Rightarrow> Some (Value r, st2))"
  using assms by (simp add: answer_loop_flat records_def)

lemma server_loop_match:
  assumes "udp (length (trace st)) qn q sv = Some resp" and "answer resp \<noteq> []"
    and "records resp = pre @ r # post" and "list_all (undecided q) pre" and "rdtype r = q"
  shows "server_loop udp rec qn q (sv # rest) tn st
           = Some (Value (Some resp), log (Sent qn q sv) st)"
  unfolding server_loop_answer [where udp = udp and rec = rec and rest = rest and tn = tn, OF assms(1,2)] assms(3)
  using assms(4,5) by (simp add: record_loop_undecided)

lemma server_loop_cname:
  assumes "udp (length (trace st)) qn q sv = Some resp" and "answer resp \<noteq> []"
    and "records resp = pre @ r # post" and "list_all (undecided q) pre"
    and "rdtype r \<noteq> q" and "rdtype r = 5"
  shows "server_loop udp rec qn q (sv # rest) tn st
           = rec (butlast (to_text r)) q ROOT_SERVERS
               (log (Restart (butlast (to_text r)) q) (log (Sent qn q sv) st))"
  unfolding server_loop_answer [where udp = udp and rec = rec and rest = rest and tn = tn, OF assms(1,2)] assms(3)
  using assms(4,5,6)
  by (simp add: record_loop_undecided split: option.splits prod.splits result.splits)

lemma answers_typeD:
  "answers_type rec \<Longrightarrow> rec t q s st = Some (Value (Some m), st') \<Longrightarrow> has_type q m"
  unfolding answers_type_def by blast

lemma record_loop_type:
  assumes "answers_type rec"
  shows "record_loop rec q resp xs tn st = Some (Return (Some m), st')
           \<Longrightarrow> has_type q m \<or> (m = resp \<and> list_ex (\<lambda>r. rdtype r = q) xs)"
  by (induction xs arbitrary: tn st)
     (auto split: if_splits option.splits prod.splits result.splits
           dest: answers_typeD [OF assms])

lemma ns_answer_loop_type:
  assumes "answers_type rec"
  shows "ns_answer_loop rec t q xs st = Some (Return (Some m), st') \<Longrightarrow> has_type q m"
  by (induction xs arbitrary: st)
     (auto split: option.splits prod.splits result.splits dest: answers_typeD [OF assms])

lemma host_loop_type:
  assumes "answers_type rec"
  shows "host_loop rec t q hs st = Some (Return (Some m), st') \<Longrightarrow> has_type q m"
  by (induction hs arbitrary: st)
     (auto split: option.splits prod.splits result.splits ctl.splits
           dest: ns_answer_loop_type [OF assms])

lemma authority_loop_type:
  assumes "answers_type rec"
  shows "authority_loop rec t q gs ns st = Some (Return (Some m), st') \<Longrightarrow> has_type q m"
  by (induction gs arbitrary: ns st)
     (auto split: option.splits prod.splits result.splits ctl.splits
           dest: host_loop_type [OF assms])

lemma server_loop_type:
  assumes a: "answers_type rec"
  shows "server_loop udp rec qn q ss tn st = Some (Value (Some m), st') \<Longrightarrow> has_type q m"
proof (induction ss arbitrary: tn st)
  case Nil
  then show ?case by simp
next
  case (Cons sv ss)
  show ?case
  proof (cases "udp (length (trace st)) qn q sv")
    case None
    with Cons show ?thesis by simp
  next
    case (Some resp)
    show ?thesis
    proof (cases "answer resp = []")
      case True
      with Cons Some show ?thesis
        by (auto split: if_splits option.splits prod.splits result.splits ctl.splits
              dest: authority_loop_type [OF a] answers_typeD [OF a])
    next
      case False
      from Cons.prems show ?thesis
        unfolding server_loop_answer [where udp = udp and rec = rec and rest = ss and tn = tn, OF Some False]
        by (auto simp: has_type_def split: option.splits prod.splits ctl.splits
              dest!: record_loop_type [OF a] dest: Cons.IH)
    qed
  qed
qed

lemma recurlookup_body_type:
  "answers_type rec \<Longrightarrow> answers_type (recurlookup_body udp rec)"
  unfolding answers_type_def [of "recurlookup_body udp rec"] recurlookup_body_def
  by (auto split: if_splits dest: server_loop_type)

lemma recurlookup_type: "answers_type (recurlookup n udp)"
proof (induction n)
  case 0
  have "answers_type no_return" by (simp add: answers_type_def no_return_def)
  then show ?case by (simp add: recurlookup_body_type)
next
  case (Suc n)
  then show ?case by (simp add: recurlookup_body_type)
qed

text \<open>
  Claim C1. When a candidate's response has a non-empty answer section, the records are
  walked in order. If the first record that is of the requested type or a CNAME is of
  the requested type, the response is returned at once; if it is a CNAME and the
  requested type is another, the engine restarts on the CNAME's target with the root
  servers and returns what that gives. Every response the engine returns holds a record
  of the requested type, so a CNAME is never the final answer to a query of another type.
\<close>

theorem answer_walk_first_match_or_cname_restart:
  assumes "udp (length (trace st)) qn q sv = Some resp" and "answer resp \<noteq> []"
    and "records resp = pre @ r # post" and "list_all (undecided q) pre"
  shows "(rdtype r = q \<longrightarrow>
            server_loop udp rec qn q (sv # rest) tn st
              = Some (Value (Some resp), log (Sent qn q sv) st))
       \<and> (rdtype r \<noteq> q \<and> rdtype r = 5 \<longrightarrow>
            server_loop udp rec qn q (sv # rest) tn st
              = rec (butlast (to_text r)) q ROOT_SERVERS
                  (log (Restart (butlast (to_text r)) q) (log (Sent qn q sv) st)))
       \<and> (rdtype r = q \<longrightarrow>
            recurlookup n udp qn q (sv # rest) st
              = Some (Value (Some resp), log (Sent qn q sv) st))
       \<and> (rdtype r \<noteq> q \<and> rdtype r = 5 \<longrightarrow>
            recurlookup (Suc n) udp qn q (sv # rest) st
              = recurlookup n udp (butlast (to_text r)) q ROOT_SERVERS
                  (log (Restart (butlast (to_text r)) q) (log (Sent qn q sv) st)))
       \<and> (recurlookup k udp' qn' q' ss st1 = Some (Value (Some m), st2) \<longrightarrow> has_type q' m)"
proof -
  note m = server_loop_match [where udp = udp, OF assms]
  note c = server_loop_cname [where udp = udp, OF assms]
  have 1: "rdtype r = q \<longrightarrow>
            server_loop udp rec qn q (sv # rest) tn st
              = Some (Value (Some resp), log (Sent qn q sv) st)"
    using m by blast
  have 2: "rdtype r \<noteq> q \<and> rdtype r = 5 \<longrightarrow>
            server_loop udp rec qn q (sv # rest) tn st
              = rec (butlast (to_text r)) q ROOT_SERVERS
                  (log (Restart (butlast (to_text r)) q) (log (Sent qn q sv) st))"
    using c by blast
  have 3: "rdtype r = q \<longrightarrow>
            recurlookup n udp qn q (sv # rest) st
              = Some (Value (Some resp), log (Sent qn q sv) st)"
    using m by (cases n) (simp_all add: recurlookup_body_def)
  have 4: "rdtype r \<noteq> q \<and> rdtype r = 5 \<longrightarrow>
            recurlookup (Suc n) udp qn q (sv # rest) st
              = recurlookup n udp (butlast (to_text r)) q ROOT_SERVERS
                  (log (Restart (butlast (to_text r)) q) (log (Sent qn q sv) st))"
    using c [of "recurlookup n udp" rest qn] by (simp add: recurlookup_body_def)
  have 5: "recurlookup k udp' qn' q' ss st1 = Some (Value (Some m), st2) \<longrightarrow> has_type q' m"
    using answers_typeD [OF recurlookup_type] by blast
  from 1 2 3 4 5 show ?thesis by blast
qed

theorem answer_walk_first_match_or_cname_restart_witness:
  "sample_net (length (trace st0)) ''www.example.com.'' 1 ''192.0.2.53'' = Some www_answer
   \<and> answer www_answer \<noteq> []
   \<and> records www_answer = [] @ mk_rd 1 ''93.184.216.34'' # []
   \<and> list_all (undecided 1) []
   \<and> recurlookup 0 sample_net ''www.example.com.'' 1 [''192.0.2.53''] st0
       = Some (Value (Some www_answer), log (Sent ''www.example.com.'' 1 ''192.0.2.53'') st0)
   \<and> sample_net (length (trace st0)) ''alias.example.com.'' 1 ''192.0.2.53'' = Some alias_answer
   \<and> records alias_answer = [] @ mk_rd 5 ''www.example.com.'' # []
   \<and> recurlookup 3 sample_net ''alias.example.com.'' 1 [''192.0.2.53''] st0
       = recurlookup 2 sample_net ''www.example.com'' 1 ROOT_SERVERS
           (log (Restart ''www.example.com'' 1)
              (log (Sent ''alias.example.com.'' 1 ''192.0.2.53'') st0))
   \<and> has_type 1 www_answer"
proof -
  have a1: "sample_net (length (trace st0)) ''www.example.com.'' 1 ''192.0.2.53'' = Some www_answer"
    by (simp add: sample_net_def absolute_def www_answer_def)
  have a2: "answer www_answer \<noteq> []" by (simp add: www_answer_def answer_msg_def)
  have a3: "records www_answer = [] @ mk_rd 1 ''93.184.216.34'' # []"
    by (simp add: www_answer_def answer_msg_def records_def rr_def)
  have a4: "list_all (undecided 1) []" by simp
  note t1 = answer_walk_first_match_or_cname_restart
    [where udp = sample_net and st = st0 and pre = "[]" and post = "[]" and rec = no_return
       and rest = "[]" and tn = "[]" and n = 0, OF a1 a2 a3 a4]
  have r1: "recurlookup 0 sample_net ''www.example.com.'' 1 [''192.0.2.53''] st0
       = Some (Value (Some www_answer), log (Sent ''www.example.com.'' 1 ''192.0.2.53'') st0)"
    using t1 by (simp add: mk_rd_def)
  have b1: "sample_net (length (trace st0)) ''alias.example.com.'' 1 ''192.0.2.53'' = Some alias_answer"
    by (simp add: sample_net_def absolute_def alias_answer_def)
  have b2: "answer alias_answer \<noteq> []" by (simp add: alias_answer_def answer_msg_def)
  have b3: "records alias_answer = [] @ mk_rd 5 ''www.example.com.'' # []"
    by (simp add: alias_answer_def answer_msg_def records_def rr_def)
  note t2 = answer_walk_first_match_or_cname_restart
    [where udp = sample_net and st = st0 and pre = "[]" and post = "[]" and rec = no_return
       and rest = "[]" and tn = "[]" and n = 2, OF b1 b2 b3 a4]
  have r2: "recurlookup 3 sample_net ''alias.example.com.'' 1 [''192.0.2.53''] st0
       = recurlookup 2 sample_net ''www.example.com'' 1 ROOT_SERVERS
           (log (Restart ''www.example.com'' 1)
              (log (Sent ''alias.example.com.'' 1 ''192.0.2.53'') st0))"
    using t2 by (simp add: mk_rd_def numeral_3_eq_3)
  have r3: "has_type 1 www_answer"
    using t1 r1 by blast
  from a1 a2 a3 a4 r1 b1 b3 r2 r3 show ?thesis by blast
qed

subsection \<open>Absent results\<close>




lemma length_trace_log: "length (trace (log e st)) = Suc (length (trace st))"
  by (simp add: log_def)














subsection \<open>A glue record set of two addresses\<close>

lemma two_glue_tokens:
  "split_space (rtext two_glue)
     = [''ns.example.'', ''300'', ''IN'', ''A'', ''192.0.2.53'',
        ''ns.example.'', ''300'', ''IN'', ''A'', ''192.0.2.54'']"
  by (simp add: two_glue_def split_space_def is_space_def)

lemma two_glue_caching:
  "dns_caching (rtext two_glue) st0 = (Value [''192.0.2.54''], st_54)"
  "dns_caching (rtext two_glue) st_54 = (Value [''192.0.2.54''], st_54)"
  by (simp_all add: dns_caching_def two_glue_tokens index_m2_def split_dot_def cache_merge_def
        st0_def st_54_def)

lemma separate_glue_sets:
  "glue_loop [rr ''ns.example.'' 1 ''A'' ''192.0.2.53'', rr ''ns.example.'' 1 ''A'' ''192.0.2.54''] [] st0
     = (Value [''192.0.2.53'', ''192.0.2.54''],
        st0\<lparr>dns_cache := [''example'' \<mapsto> [''192.0.2.53'', ''192.0.2.54'']]\<rparr>)"
  by (simp add: dns_caching_def rr_def mk_rd_def split_space_def is_space_def index_m2_def
        split_dot_def cache_merge_def st0_def)

lemma two_glue_loop: "glue_loop [two_glue] [] st0 = (Value [''192.0.2.54''], st_54)"
  by (simp add: two_glue_caching)

lemma host_from_53:
  "recurlookup n net_two_glue ''host.example.'' 1 (''192.0.2.53'' # rest) st0
     = Some (Value (Some host_answer),
             st0\<lparr>trace := [Sent ''host.example.'' 1 ''192.0.2.53'']\<rparr>)"
  by (cases n)
     (simp_all add: recurlookup_body_def net_two_glue_def absolute_def host_answer_def
        answer_msg_def rr_def mk_rd_def log_def st0_def)

lemma host_from_54:
  "recurlookup n net_two_glue ''host.example.'' 1 [''192.0.2.54''] st
     = Some (Value None, log (Sent ''host.example.'' 1 ''192.0.2.54'') st)"
  by (cases n) (simp_all add: recurlookup_body_def net_two_glue_def)

text \<open>
  Claim C9 says that every referral chain with full glue leads to a terminal answer. A
  record set of the additional section that lists two addresses is printed by the library
  on two lines, and line 163 takes the last token of the whole text at every token
  \<^verbatim>\<open>A\<close>: the extractor gives the second address alone. On a chain of depth one whose glue
  lists 192.0.2.53, which has the answer, and then 192.0.2.54, which is down, the engine
  asks 192.0.2.54 only and returns \<^verbatim>\<open>None\<close>, whatever depth is allowed; the candidate list
  of both addresses reaches the answer at 192.0.2.53, and the same glue given as two
  record sets of one address each is accumulated to that list.
\<close>

theorem glue_record_set_of_two_addresses_loses_the_first:
  "glue_loop [two_glue] [] st0 = (Value [''192.0.2.54''], st_54)
   \<and> recurlookup (Suc n) net_two_glue ''host.example.'' 1 [''192.0.2.1''] st0
       = Some (Value None,
               st_54\<lparr>trace := [Sent ''host.example.'' 1 ''192.0.2.1'',
                                Sent ''host.example.'' 1 ''192.0.2.54'']\<rparr>)
   \<and> recurlookup n net_two_glue ''host.example.'' 1 [''192.0.2.53'', ''192.0.2.54''] st0
       = Some (Value (Some host_answer),
               st0\<lparr>trace := [Sent ''host.example.'' 1 ''192.0.2.53'']\<rparr>)
   \<and> glue_loop [rr ''ns.example.'' 1 ''A'' ''192.0.2.53'',
                 rr ''ns.example.'' 1 ''A'' ''192.0.2.54''] [] st0
       = (Value [''192.0.2.53'', ''192.0.2.54''],
          st0\<lparr>dns_cache := [''example'' \<mapsto> [''192.0.2.53'', ''192.0.2.54'']]\<rparr>)"
proof -
  have "recurlookup (Suc n) net_two_glue ''host.example.'' 1 [''192.0.2.1''] st0
       = Some (Value None,
               st_54\<lparr>trace := [Sent ''host.example.'' 1 ''192.0.2.1'',
                                Sent ''host.example.'' 1 ''192.0.2.54'']\<rparr>)"
    by (simp add: recurlookup_body_def net_two_glue_def referral_def dns_caching_def
          two_glue_tokens index_m2_def split_dot_def cache_merge_def st0_def st_54_def log_def
          host_from_54 [unfolded One_nat_def])
  with two_glue_loop host_from_53 [of n "[''192.0.2.54'']"] separate_glue_sets
  show ?thesis by blast
qed

subsection \<open>Referrals without glue\<close>

lemma collect_ns_closed:
  "collect_ns recs ns =
     ns @ map (\<lambda>a. butlast (to_text a)) (filter (\<lambda>a. rdtype a \<noteq> 6) recs)"
  by (induction recs arbitrary: ns) auto



lemma ns_hosts_Cons:
  "ns_hosts (g # gs) = collect_ns (rdatas g) [] @ ns_hosts gs"
  by (simp add: ns_hosts_def collect_ns_closed)

lemma collect_ns_acc: "collect_ns recs ns = ns @ collect_ns recs []"
  by (simp add: collect_ns_closed)













subsection \<open>A referral with glue after an answer that was passed over\<close>

lemma server_loop_glue:
  assumes "udp (length (trace st)) qn q sv = Some resp"
    and "answer resp = []" and "additional resp \<noteq> []"
  shows "server_loop udp rec qn q (sv # rest) tn st =
           (case glue_loop (additional resp) [] (log (Sent qn q sv) st) of
              (Error e, st2) \<Rightarrow> Some (Error e, st2)
            | (Value addrs, st2) \<Rightarrow> rec tn q addrs st2)"
  using assms by simp

lemma server_loop_passed_over:
  assumes "udp (length (trace st)) qn q sv = Some resp" and "answer resp \<noteq> []"
    and "list_all (undecided q) (records resp)"
  shows "server_loop udp rec qn q (sv # rest) tn st =
           server_loop udp rec qn q rest
             (if records resp = [] then tn else butlast (to_text (last (records resp))))
             (log (Sent qn q sv) st)"
  unfolding server_loop_answer [where udp = udp and rec = rec and rest = rest and tn = tn,
      OF assms(1,2)]
  using record_loop_undecided [OF assms(3), of rec resp "[]" tn "log (Sent qn q sv) st"]
  by simp

text \<open>
  Claim C3 says that a referral with glue makes the engine recurse on the same name with
  the glue addresses. The code recurses on its local \<^verbatim>\<open>target_name\<close>, which the answer walk
  of an earlier candidate has overwritten when that walk found nothing. Asked for the
  AAAA record of \<^verbatim>\<open>host.example.\<close>, the server 192.0.2.2 refers to 192.0.2.53 with glue, and
  from that candidate alone the engine gets the answer. With the candidate 192.0.2.1 in
  front, which answers with an A record only, the same referral makes the engine ask
  192.0.2.53 for the name \<^verbatim>\<open>192.0.2.1\<close> (the text of the A record without its last
  character), and the result is absent.
\<close>

theorem glue_referral_after_unmatched_answer_recurses_on_overwritten_name:
  "recurlookup 1 net_mixed ''host.example.'' 28 [''192.0.2.2''] st0
     = Some (Value (Some (answer_msg [rr ''host.example.'' 28 ''AAAA'' ''2001:db8::10''])),
             \<lparr>dns_cache = [''example'' \<mapsto> [''192.0.2.53'']], domain_cache = Map.empty,
              trace = [Sent ''host.example.'' 28 ''192.0.2.2'',
                       Sent ''host.example.'' 28 ''192.0.2.53'']\<rparr>)
   \<and> recurlookup 1 net_mixed ''host.example.'' 28 [''192.0.2.1'', ''192.0.2.2''] st0
     = Some (Value None,
             \<lparr>dns_cache = [''example'' \<mapsto> [''192.0.2.53'']], domain_cache = Map.empty,
              trace = [Sent ''host.example.'' 28 ''192.0.2.1'',
                       Sent ''host.example.'' 28 ''192.0.2.2'',
                       Sent ''192.0.2.1'' 28 ''192.0.2.53'']\<rparr>)"
  by (simp add: recurlookup_body_def net_mixed_def absolute_def referral_def answer_msg_def
        rr_def mk_rd_def log_def st0_def dns_caching_def split_space_def is_space_def
        split_dot_def index_m2_def cache_merge_def)

subsection \<open>The aggregator\<close>

lemma address_records_closed:
  "address_records code a_name recs acc =
     acc @ map (\<lambda>a. AddressEntry a_name (to_text a)) (filter (\<lambda>a. rdtype a = code) recs)"
  by (induction recs arbitrary: acc) auto

lemma address_answers_closed:
  "address_answers code rrsets acc =
     acc @ concat (map (\<lambda>g. map (\<lambda>a. AddressEntry (rname g) (to_text a))
                               (filter (\<lambda>a. rdtype a = code) (rdatas g))) rrsets)"
  by (induction rrsets arbitrary: acc) (auto simp: address_records_closed)

lemma mx_records_closed:
  "mx_records mx_name recs acc =
     acc @ map (\<lambda>a. MxEntry mx_name (preference a) (exchange a))
               (filter (\<lambda>a. rdtype a = 15) recs)"
  by (induction recs arbitrary: acc) auto

lemma mx_answers_closed:
  "mx_answers rrsets acc =
     acc @ concat (map (\<lambda>g. map (\<lambda>a. MxEntry (rname g) (preference a) (exchange a))
                               (filter (\<lambda>a. rdtype a = 15) (rdatas g))) rrsets)"
  by (induction rrsets arbitrary: acc) (auto simp: mx_records_closed)

lemma cname_records_closed:
  "cname_records name recs acc =
     (fst acc @ map (\<lambda>a. CnameEntry a name) recs,
      if recs = [] then snd acc else butlast (to_text (last recs)))"
  by (induction recs arbitrary: acc) auto

lemma cname_answers_entries:
  "fst (cname_answers name rrsets acc) =
     fst acc @ map (\<lambda>a. CnameEntry a name) (concat (map rdatas rrsets))"
  by (induction rrsets arbitrary: acc) (auto simp: cname_records_closed)

text \<open>
  Claim C6 says that each of the four lookups puts into the aggregate only the records of
  the type it asked for. The loops for A, AAAA and MX check the type; the loop for CNAME
  does not. When the server answers the CNAME query for \<^verbatim>\<open>alias.example.com.\<close> with the
  alias followed by the address of its target, the aggregate lists the address record as
  a second alias, the three later lookups ask for the name \<^verbatim>\<open>93.184.216.3\<close> (the text of
  that record without its last character), and no address is reported. The loop for A,
  given the same answer section, keeps the address record alone.
\<close>

theorem collect_results_lists_address_record_as_cname:
  "collect_results 0 net_extra absolute ''alias.example.com'' st_com53
     = Some (Value \<lparr>cnames = [CnameEntry (mk_rd 5 ''www.example.com.'') ''alias.example.com'',
                               CnameEntry (mk_rd 1 ''93.184.216.34'') ''alias.example.com''],
                     arecords = [], aaaarecords = [], mxrecords = []\<rparr>,
             st_com53\<lparr>trace := Sent ''alias.example.com.'' 5 ''192.0.2.53''
                                 # map (Sent ''93.184.216.3'' 1) ROOT_SERVERS
                                 @ map (Sent ''93.184.216.3'' 28) ROOT_SERVERS
                                 @ map (Sent ''93.184.216.3'' 15) ROOT_SERVERS\<rparr>)
   \<and> address_answers 1 (answer alias_with_address) []
       = [AddressEntry ''www.example.com.'' ''93.184.216.34'']"
  by (simp add: collect_results_def bind_def lookup_def recurlookup_body_def net_extra_def
        alias_with_address_def absolute_def answer_msg_def rr_def mk_rd_def log_def st0_def
        st_com53_def split_dot_def index_m2_def ROOT_SERVERS_def Let_def)

end
